theory Spec2Isabelle
  imports Main "HOL-Library.AList"
begin

section \<open>Byte strings\<close>

text \<open>
  A Go \<^verbatim>\<open>string\<close> and a Go \<^verbatim>\<open>[]byte\<close> are both sequences of bytes; both are modelled
  as \<^typ>\<open>string\<close> (a list of 8-bit characters). \<open>byte c\<close> is the numeric value of a byte.
\<close>

type_synonym bytes = string

definition byte :: "char \<Rightarrow> nat" where
  "byte c = of_char c"

definition dquote :: char where
  "dquote = CHR 0x22"

definition backslash :: char where
  "backslash = CHR 0x5C"

section \<open>Package \<^verbatim>\<open>unicode/utf8\<close>\<close>

text \<open>
  Runes are natural numbers. The masks and shifts of the Go code are written with
  \<open>mod\<close>, \<open>div\<close> and multiplication: \<^verbatim>\<open>s0&mask2\<close> is \<open>s0 mod 32\<close>,
  \<^verbatim>\<open>s1&maskx\<close> is \<open>s1 mod 64\<close>, \<^verbatim>\<open>x<<6 | y\<close> with \<open>y < 64\<close> is \<open>x * 64 + y\<close>.
\<close>

definition RuneError :: nat where
  "RuneError = 0xFFFD"

definition MaxRune :: nat where
  "MaxRune = 0x10FFFF"

text \<open>The table \<^verbatim>\<open>first\<close>: the length of the sequence a leading byte announces, 0 for
  a byte that cannot lead (\<^verbatim>\<open>xx\<close>), and the range accepted for the second byte.\<close>

definition first_size :: "nat \<Rightarrow> nat" where
  "first_size s0 =
     (if s0 < 0x80 then 1
      else if s0 < 0xC2 then 0
      else if s0 < 0xE0 then 2
      else if s0 < 0xF0 then 3
      else if s0 < 0xF5 then 4
      else 0)"

definition accept_lo :: "nat \<Rightarrow> nat" where
  "accept_lo s0 = (if s0 = 0xE0 then 0xA0 else if s0 = 0xF0 then 0x90 else 0x80)"

definition accept_hi :: "nat \<Rightarrow> nat" where
  "accept_hi s0 = (if s0 = 0xED then 0x9F else if s0 = 0xF4 then 0x8F else 0xBF)"

text \<open>\<^verbatim>\<open>utf8.DecodeRuneInString\<close>: the first rune of the string and its width in bytes;
  \<open>(RuneError, 1)\<close> on an invalid sequence, \<open>(RuneError, 0)\<close> on the empty string.\<close>

fun DecodeRune :: "string \<Rightarrow> nat \<times> nat" where
  "DecodeRune [] = (RuneError, 0)"
| "DecodeRune (c0 # s) =
     (let s0 = byte c0; sz = first_size s0 in
      if sz = 1 then (s0, 1)
      else if sz = 0 then (RuneError, 1)
      else if Suc (length s) < sz then (RuneError, 1)
      else
        let s1 = byte (s ! 0) in
        if s1 < accept_lo s0 \<or> accept_hi s0 < s1 then (RuneError, 1)
        else if sz \<le> 2 then ((s0 mod 32) * 64 + s1 mod 64, 2)
        else
          let s2 = byte (s ! 1) in
          if s2 < 0x80 \<or> 0xBF < s2 then (RuneError, 1)
          else if sz \<le> 3 then ((s0 mod 16) * 4096 + (s1 mod 64) * 64 + s2 mod 64, 3)
          else
            let s3 = byte (s ! 2) in
            if s3 < 0x80 \<or> 0xBF < s3 then (RuneError, 1)
            else ((s0 mod 8) * 262144 + (s1 mod 64) * 4096 + (s2 mod 64) * 64 + s3 mod 64, 4))"

text \<open>\<^verbatim>\<open>utf8.EncodeRune\<close>: the UTF-8 encoding of a rune; a surrogate or a rune beyond
  \<open>MaxRune\<close> is encoded as \<open>RuneError\<close>.\<close>

definition enc3 :: "nat \<Rightarrow> string" where
  "enc3 r = [char_of (0xE0 + r div 4096), char_of (0x80 + (r div 64) mod 64),
             char_of (0x80 + r mod 64)]"

definition EncodeRune :: "nat \<Rightarrow> string" where
  "EncodeRune r =
     (if r \<le> 0x7F then [char_of r]
      else if r \<le> 0x7FF then [char_of (0xC0 + r div 64), char_of (0x80 + r mod 64)]
      else if r > MaxRune \<or> (0xD800 \<le> r \<and> r \<le> 0xDFFF) then enc3 RuneError
      else if r \<le> 0xFFFF then enc3 r
      else [char_of (0xF0 + r div 262144), char_of (0x80 + (r div 4096) mod 64),
            char_of (0x80 + (r div 64) mod 64), char_of (0x80 + r mod 64)])"

text \<open>\<^verbatim>\<open>utf8.ValidString\<close>.\<close>

fun ValidString :: "string \<Rightarrow> bool" where
  "ValidString [] = True"
| "ValidString (c # s) =
     (case DecodeRune (c # s) of (r, w) \<Rightarrow>
        if r = RuneError \<and> w = 1 then False
        else ValidString (drop (w - 1) s))"

text \<open>What \<^verbatim>\<open>encoding/json\<close> calls coercing a string to valid UTF-8: every byte that does
  not start a valid sequence is replaced by the encoding of U+FFFD.\<close>

fun coerce_utf8 :: "string \<Rightarrow> string" where
  "coerce_utf8 [] = []"
| "coerce_utf8 (c # s) =
     (case DecodeRune (c # s) of (r, w) \<Rightarrow>
        if r = RuneError \<and> w = 1 then EncodeRune RuneError @ coerce_utf8 s
        else c # take (w - 1) s @ coerce_utf8 (drop (w - 1) s))"

section \<open>Package \<^verbatim>\<open>unicode/utf16\<close> and \<^verbatim>\<open>strconv\<close>\<close>

definition IsSurrogate :: "nat \<Rightarrow> bool" where
  "IsSurrogate r = (0xD800 \<le> r \<and> r < 0xE000)"

text \<open>\<^verbatim>\<open>utf16.DecodeRune\<close>: the code point of a surrogate pair, U+FFFD if it is not one.\<close>

definition utf16_DecodeRune :: "nat \<Rightarrow> nat \<Rightarrow> nat" where
  "utf16_DecodeRune r1 r2 =
     (if 0xD800 \<le> r1 \<and> r1 < 0xDC00 \<and> 0xDC00 \<le> r2 \<and> r2 < 0xE000
      then (r1 - 0xD800) * 1024 + (r2 - 0xDC00) + 0x10000
      else RuneError)"

definition digit_char :: "nat \<Rightarrow> char" where
  "digit_char n = ''0123456789abcdef'' ! n"

text \<open>The decimal digits of a natural number, most significant first.\<close>

fun decimal :: "nat \<Rightarrow> string" where
  "decimal n = (if n < 10 then [digit_char n] else decimal (n div 10) @ [digit_char (n mod 10)])"

declare decimal.simps [simp del]

text \<open>\<^verbatim>\<open>strconv.Itoa\<close>.\<close>

definition Itoa :: "int \<Rightarrow> string" where
  "Itoa i = (if i < 0 then CHR ''-'' # decimal (nat (- i)) else decimal (nat i))"

section \<open>Package \<^verbatim>\<open>encoding/json\<close>: encoding\<close>

text \<open>
  The part of \<^verbatim>\<open>json.Marshal\<close> that the two record types of the contract reach: strings
  (with HTML escaping, which \<^verbatim>\<open>Marshal\<close> turns on), slices of strings, integers, and a
  struct with tagged fields. The string encoder follows \<^verbatim>\<open>encodeState.string\<close>: a byte of
  \<^verbatim>\<open>htmlSafeSet\<close> is copied, another ASCII byte is escaped, an invalid UTF-8 byte becomes
  the escape of U+FFFD, U+2028 and U+2029 are escaped, and any other rune is copied as it is.
\<close>

definition htmlSafe :: "nat \<Rightarrow> bool" where
  "htmlSafe b = (0x20 \<le> b \<and> b < 0x80 \<and> b \<noteq> 0x22 \<and> b \<noteq> 0x5C
                  \<and> b \<noteq> 0x3C \<and> b \<noteq> 0x3E \<and> b \<noteq> 0x26)"

definition escape_byte :: "char \<Rightarrow> string" where
  "escape_byte c =
     (if c = backslash \<or> c = dquote then [backslash, c]
      else if c = CHR 0x0A then [backslash, CHR ''n'']
      else if c = CHR 0x0D then [backslash, CHR ''r'']
      else if c = CHR 0x09 then [backslash, CHR ''t'']
      else [backslash, CHR ''u'', CHR ''0'', CHR ''0'',
            digit_char (byte c div 16), digit_char (byte c mod 16)])"

fun encode_chars :: "string \<Rightarrow> string" where
  "encode_chars [] = []"
| "encode_chars (c # s) =
     (if byte c < 0x80 then
        (if htmlSafe (byte c) then [c] else escape_byte c) @ encode_chars s
      else
        (case DecodeRune (c # s) of (r, w) \<Rightarrow>
           if r = RuneError \<and> w = 1 then
             [backslash, CHR ''u'', CHR ''f'', CHR ''f'', CHR ''f'', CHR ''d''] @ encode_chars s
           else if r = 0x2028 \<or> r = 0x2029 then
             [backslash, CHR ''u'', CHR ''2'', CHR ''0'', CHR ''2'', digit_char (r mod 16)]
               @ encode_chars (drop (w - 1) s)
           else c # take (w - 1) s @ encode_chars (drop (w - 1) s)))"

definition encode_string :: "string \<Rightarrow> string" where
  "encode_string s = dquote # encode_chars s @ [dquote]"

fun encode_elems :: "string list \<Rightarrow> string" where
  "encode_elems [] = []"
| "encode_elems [x] = encode_string x"
| "encode_elems (x # y # xs) = encode_string x @ CHR '','' # encode_elems (y # xs)"

text \<open>A nil slice is encoded as \<^verbatim>\<open>null\<close>, any other slice as an array.\<close>

definition encode_slice :: "string list option \<Rightarrow> string" where
  "encode_slice a = (case a of None \<Rightarrow> ''null'' | Some xs \<Rightarrow> CHR ''['' # encode_elems xs @ '']'')"

section \<open>The records of the contract\<close>

text \<open>
  \<^verbatim>\<open>Attendees\<close> is a Go slice: \<open>None\<close> is the nil slice, \<open>Some xs\<close> a slice with the elements
  \<open>xs\<close>. The two fields of \<^verbatim>\<open>Person\<close> carry the prefix \<open>Person\<close> because a field name can
  belong to one record only.
\<close>

record Habit =
  Name :: string
  Type :: string
  Attendees :: "string list option"
  Owner :: string

record Person =
  PersonName :: string
  PersonAge :: int

text \<open>\<^verbatim>\<open>Habit{}\<close>, the zero value.\<close>

definition zero_Habit :: Habit where
  "zero_Habit = \<lparr>Name = [], Type = [], Attendees = None, Owner = []\<rparr>"

text \<open>\<^verbatim>\<open>append(s, x)\<close> on a slice of strings.\<close>

definition append_slice :: "string list option \<Rightarrow> string \<Rightarrow> string list option" where
  "append_slice a x = (case a of None \<Rightarrow> Some [x] | Some xs \<Rightarrow> Some (xs @ [x]))"

text \<open>\<^verbatim>\<open>json.Marshal\<close> at the two record types; neither can fail.\<close>

definition Marshal_Habit :: "Habit \<Rightarrow> bytes" where
  \<open>Marshal_Habit h =
     ''{"name":'' @ encode_string (Name h)
     @ '',"type":'' @ encode_string (Type h)
     @ '',"attendees":'' @ encode_slice (Attendees h)
     @ '',"owner":'' @ encode_string (Owner h) @ ''}''\<close>

definition Marshal_Person :: "Person \<Rightarrow> bytes" where
  \<open>Marshal_Person p =
     ''{"name":'' @ encode_string (PersonName p)
     @ '',"age":'' @ Itoa (PersonAge p) @ ''}''\<close>

section \<open>Package \<^verbatim>\<open>encoding/json\<close>: decoding\<close>

subsection \<open>String literals\<close>

definition hexval :: "char \<Rightarrow> nat option" where
  "hexval c =
     (let b = byte c in
      if 0x30 \<le> b \<and> b \<le> 0x39 then Some (b - 0x30)
      else if 0x61 \<le> b \<and> b \<le> 0x66 then Some (b - 0x61 + 10)
      else if 0x41 \<le> b \<and> b \<le> 0x46 then Some (b - 0x41 + 10)
      else None)"

text \<open>\<^verbatim>\<open>getu4\<close>: the value of the four hexadecimal digits of a leading \<^verbatim>\<open>\uXXXX\<close>;
  \<open>None\<close> stands for the \<open>-1\<close> of the Go code.\<close>

definition getu4 :: "string \<Rightarrow> nat option" where
  "getu4 s =
     (case s of
        b # u # h1 # h2 # h3 # h4 # _ \<Rightarrow>
          if b = backslash \<and> u = CHR ''u'' then
            (case (hexval h1, hexval h2, hexval h3, hexval h4) of
               (Some x1, Some x2, Some x3, Some x4) \<Rightarrow> Some (((x1 * 16 + x2) * 16 + x3) * 16 + x4)
             | _ \<Rightarrow> None)
          else None
      | _ \<Rightarrow> None)"

text \<open>
  The scanner inside a string literal (states \<^verbatim>\<open>stateInString\<close>, \<^verbatim>\<open>stateInStringEsc\<close>,
  \<^verbatim>\<open>stateInStringEscU\<close> ...): from the text after the opening quote, the contents of the
  literal and the text after its closing quote. A control character, an unknown escape and
  an unterminated literal are syntax errors.
\<close>

definition simple_escape :: "char \<Rightarrow> bool" where
  "simple_escape e = (e \<in> set [CHR ''b'', CHR ''f'', CHR ''n'', CHR ''r'', CHR ''t'',
                               backslash, CHR ''/'', dquote])"

fun scan_string :: "string \<Rightarrow> (string \<times> string) option" where
  "scan_string [] = None"
| "scan_string (c # s) =
     (if c = dquote then Some ([], s)
      else if c = backslash then
        (case s of
           [] \<Rightarrow> None
         | e # s' \<Rightarrow>
             if simple_escape e then
               map_option (\<lambda>(l, r). (c # e # l, r)) (scan_string s')
             else if e = CHR ''u'' then
               (case s' of
                  h1 # h2 # h3 # h4 # s'' \<Rightarrow>
                    if hexval h1 \<noteq> None \<and> hexval h2 \<noteq> None \<and> hexval h3 \<noteq> None
                       \<and> hexval h4 \<noteq> None
                    then map_option (\<lambda>(l, r). (c # e # h1 # h2 # h3 # h4 # l, r)) (scan_string s'')
                    else None
                | _ \<Rightarrow> None)
             else None)
      else if byte c < 0x20 then None
      else map_option (\<lambda>(l, r). (c # l, r)) (scan_string s))"

text \<open>
  \<^verbatim>\<open>unquote\<close>: the Go string a literal's contents denote. Escapes are resolved, a
  surrogate pair of \<^verbatim>\<open>\u\<close> escapes is combined, a lone surrogate and every invalid
  UTF-8 byte become U+FFFD.
\<close>

definition unescape :: "char \<Rightarrow> char option" where
  "unescape e =
     (if e = dquote \<or> e = backslash \<or> e = CHR ''/'' \<or> e = CHR 0x27 then Some e
      else if e = CHR ''b'' then Some (CHR 0x08)
      else if e = CHR ''f'' then Some (CHR 0x0C)
      else if e = CHR ''n'' then Some (CHR 0x0A)
      else if e = CHR ''r'' then Some (CHR 0x0D)
      else if e = CHR ''t'' then Some (CHR 0x09)
      else None)"

function unquote :: "string \<Rightarrow> string option" where
  "unquote [] = Some []"
| "unquote (c # s) =
     (if c = backslash then
        (case s of
           [] \<Rightarrow> None
         | e # s' \<Rightarrow>
             if e = CHR ''u'' then
               (case getu4 (c # s) of
                  None \<Rightarrow> None
                | Some rr \<Rightarrow>
                    if IsSurrogate rr then
                      (case getu4 (drop 4 s') of
                         None \<Rightarrow> map_option ((@) (EncodeRune RuneError)) (unquote (drop 4 s'))
                       | Some rr1 \<Rightarrow>
                           if utf16_DecodeRune rr rr1 \<noteq> RuneError
                           then map_option ((@) (EncodeRune (utf16_DecodeRune rr rr1)))
                                  (unquote (drop 10 s'))
                           else map_option ((@) (EncodeRune RuneError)) (unquote (drop 4 s')))
                    else map_option ((@) (EncodeRune rr)) (unquote (drop 4 s')))
             else
               (case unescape e of
                  None \<Rightarrow> None
                | Some x \<Rightarrow> map_option ((#) x) (unquote s')))
      else if c = dquote \<or> byte c < 0x20 then None
      else if byte c < 0x80 then map_option ((#) c) (unquote s)
      else
        (case DecodeRune (c # s) of (rr, w) \<Rightarrow>
           map_option ((@) (EncodeRune rr)) (unquote (drop (w - 1) s))))"
  by pat_completeness auto
termination
  by (relation "measure length") auto

declare unquote.simps [simp del]

subsection \<open>Tokens\<close>

datatype token =
  LBrace | RBrace | LBrack | RBrack | Colon | Comma
  | TString string | TNumber string | TTrue | TFalse | TNull

definition isSpace :: "char \<Rightarrow> bool" where
  "isSpace c = (c = CHR '' '' \<or> c = CHR 0x09 \<or> c = CHR 0x0D \<or> c = CHR 0x0A)"

definition is_digit :: "char \<Rightarrow> bool" where
  "is_digit c = (0x30 \<le> byte c \<and> byte c \<le> 0x39)"

text \<open>The number grammar of the scanner (states \<^verbatim>\<open>stateNeg\<close>, \<^verbatim>\<open>state0\<close>,
  \<^verbatim>\<open>state1\<close>, \<^verbatim>\<open>stateDot\<close>, \<^verbatim>\<open>stateE\<close> ...): an optional minus, \<open>0\<close> or a
  nonzero digit and digits, an optional fraction, an optional exponent.\<close>

definition scan_exp :: "string \<Rightarrow> string \<Rightarrow> (string \<times> string) option" where
  "scan_exp acc s =
     (case s of
        [] \<Rightarrow> Some (acc, s)
      | c # r \<Rightarrow>
          if c = CHR ''e'' \<or> c = CHR ''E'' then
            (let sg = (case r of [] \<Rightarrow> [] | x # _ \<Rightarrow> if x = CHR ''+'' \<or> x = CHR ''-'' then [x] else []);
                 r' = drop (length sg) r
             in case takeWhile is_digit r' of
                  [] \<Rightarrow> None
                | d # ds \<Rightarrow> Some (acc @ c # sg @ d # ds, dropWhile is_digit r'))
          else Some (acc, s))"

definition scan_frac :: "string \<Rightarrow> string \<Rightarrow> (string \<times> string) option" where
  "scan_frac acc s =
     (case s of
        [] \<Rightarrow> scan_exp acc s
      | c # r \<Rightarrow>
          if c = CHR ''.'' then
            (case takeWhile is_digit r of
               [] \<Rightarrow> None
             | d # ds \<Rightarrow> scan_exp (acc @ c # d # ds) (dropWhile is_digit r))
          else scan_exp acc s)"

definition scan_number :: "string \<Rightarrow> (string \<times> string) option" where
  "scan_number s =
     (let sg = (case s of [] \<Rightarrow> [] | x # _ \<Rightarrow> if x = CHR ''-'' then [x] else []);
          s1 = drop (length sg) s
      in case s1 of
           [] \<Rightarrow> None
         | d # r \<Rightarrow>
             if d = CHR ''0'' then scan_frac (sg @ [d]) r
             else if is_digit d then
               scan_frac (sg @ d # takeWhile is_digit r) (dropWhile is_digit r)
             else None)"

datatype lexres = LexEnd | LexError | LexTok token string

text \<open>The next token of the input, after any white space.\<close>

fun next_token :: "string \<Rightarrow> lexres" where
  "next_token [] = LexEnd"
| "next_token (c # s) =
     (if isSpace c then next_token s
      else if c = CHR ''{'' then LexTok LBrace s
      else if c = CHR ''}'' then LexTok RBrace s
      else if c = CHR ''['' then LexTok LBrack s
      else if c = CHR '']'' then LexTok RBrack s
      else if c = CHR '':'' then LexTok Colon s
      else if c = CHR '','' then LexTok Comma s
      else if c = dquote then
        (case scan_string s of
           None \<Rightarrow> LexError
         | Some (lit, r) \<Rightarrow>
             (case unquote lit of None \<Rightarrow> LexError | Some v \<Rightarrow> LexTok (TString v) r))
      else if c = CHR ''-'' \<or> is_digit c then
        (case scan_number (c # s) of
           None \<Rightarrow> LexError
         | Some (n, r) \<Rightarrow> LexTok (TNumber n) r)
      else if c = CHR ''t'' then
        (if take 3 s = ''rue'' then LexTok TTrue (drop 3 s) else LexError)
      else if c = CHR ''f'' then
        (if take 4 s = ''alse'' then LexTok TFalse (drop 4 s) else LexError)
      else if c = CHR ''n'' then
        (if take 3 s = ''ull'' then LexTok TNull (drop 3 s) else LexError)
      else LexError)"

subsection \<open>Values\<close>

datatype json =
  JNull | JBool bool | JNumber string | JString string
  | JArray "json list" | JObject "(string \<times> json) list"

text \<open>
  The parse stack (\<^verbatim>\<open>parseState\<close>) and what the scanner expects next. A frame keeps what
  has been read of the array or object it stands for: \<open>FArray\<close> the elements, \<open>FObject\<close>
  the members, \<open>FMember\<close> the members and the key whose value is being read.
\<close>

datatype frame =
  FArray "json list"
  | FObject "(string \<times> json) list"
  | FMember "(string \<times> json) list" string

datatype expect =
  XValue | XValueOrEnd | XKeyOrEnd | XKey | XColon | XCommaOrEnd | XDone json

type_synonym config = "frame list \<times> expect"

text \<open>A value is complete: it is the result, or it goes into the enclosing frame.\<close>

fun push_value :: "json \<Rightarrow> frame list \<Rightarrow> config option" where
  "push_value v [] = Some ([], XDone v)"
| "push_value v (FArray vs # st) = Some (FArray (vs @ [v]) # st, XCommaOrEnd)"
| "push_value v (FMember ms k # st) = Some (FObject (ms @ [(k, v)]) # st, XCommaOrEnd)"
| "push_value v (FObject ms # st) = None"

fun begin_value :: "token \<Rightarrow> frame list \<Rightarrow> config option" where
  "begin_value LBrace st = Some (FObject [] # st, XKeyOrEnd)"
| "begin_value LBrack st = Some (FArray [] # st, XValueOrEnd)"
| "begin_value (TString x) st = push_value (JString x) st"
| "begin_value (TNumber n) st = push_value (JNumber n) st"
| "begin_value TTrue st = push_value (JBool True) st"
| "begin_value TFalse st = push_value (JBool False) st"
| "begin_value TNull st = push_value JNull st"
| "begin_value _ st = None"

fun end_array :: "frame list \<Rightarrow> config option" where
  "end_array (FArray vs # st) = push_value (JArray vs) st"
| "end_array _ = None"

fun end_object :: "frame list \<Rightarrow> config option" where
  "end_object (FObject ms # st) = push_value (JObject ms) st"
| "end_object _ = None"

fun begin_key :: "token \<Rightarrow> frame list \<Rightarrow> config option" where
  "begin_key (TString k) (FObject ms # st) = Some (FMember ms k # st, XColon)"
| "begin_key _ _ = None"

fun after_comma :: "frame list \<Rightarrow> config option" where
  "after_comma (FArray vs # st) = Some (FArray vs # st, XValue)"
| "after_comma (FObject ms # st) = Some (FObject ms # st, XKey)"
| "after_comma _ = None"

fun step :: "token \<Rightarrow> config \<Rightarrow> config option" where
  "step t (st, XValue) = begin_value t st"
| "step t (st, XValueOrEnd) = (if t = RBrack then end_array st else begin_value t st)"
| "step t (st, XKeyOrEnd) = (if t = RBrace then end_object st else begin_key t st)"
| "step t (st, XKey) = begin_key t st"
| "step t (st, XColon) = (if t = Colon then Some (st, XValue) else None)"
| "step t (st, XCommaOrEnd) =
     (if t = Comma then after_comma st
      else if t = RBrack then end_array st
      else if t = RBrace then end_object st
      else None)"
| "step t (st, XDone v) = None"

fun finish :: "config \<Rightarrow> json option" where
  "finish ([], XDone v) = Some v"
| "finish _ = None"

function parse_loop :: "config \<Rightarrow> string \<Rightarrow> json option" where
  "parse_loop cfg s =
     (case next_token s of
        LexEnd \<Rightarrow> finish cfg
      | LexError \<Rightarrow> None
      | LexTok t r \<Rightarrow>
          (case step t cfg of
             None \<Rightarrow> None
           | Some cfg' \<Rightarrow> if length r < length s then parse_loop cfg' r else None))"
  by pat_completeness auto
termination
  by (relation "measure (\<lambda>(cfg, s). length s)") auto

declare parse_loop.simps [simp del]

text \<open>The JSON value a text denotes, \<open>None\<close> when the text is not well-formed JSON
  (what \<^verbatim>\<open>checkValid\<close> reports as a syntax error).\<close>

definition parse_json :: "bytes \<Rightarrow> json option" where
  "parse_json s = parse_loop ([], XValue) s"

definition valid_json :: "bytes \<Rightarrow> bool" where
  "valid_json s = (parse_json s \<noteq> None)"

subsection \<open>\<^verbatim>\<open>json.Unmarshal\<close> into a \<^verbatim>\<open>Habit\<close>\<close>

text \<open>
  Following the package documentation: a syntax error leaves the target untouched; an
  object key is matched to a field by its tag, an exact match first, a case-insensitive
  match otherwise; \<^verbatim>\<open>null\<close> leaves a string as it is and makes a slice nil; an array
  replaces a slice, element by element; a value of the wrong type is skipped and the first
  such error is reported once the rest has been decoded; unknown keys are ignored.
\<close>

datatype json_error = SyntaxError | UnmarshalTypeError

datatype habit_field = FieldName | FieldType | FieldAttendees | FieldOwner

definition habit_fields :: "(string \<times> habit_field) list" where
  "habit_fields = [(''name'', FieldName), (''type'', FieldType),
                   (''attendees'', FieldAttendees), (''owner'', FieldOwner)]"

text \<open>\<^verbatim>\<open>b & caseMask\<close>: bit 5 of the byte cleared.\<close>

definition caseMasked :: "nat \<Rightarrow> nat" where
  "caseMasked b = (if (b div 32) mod 2 = 1 then b - 32 else b)"

text \<open>
  \<^verbatim>\<open>equalFoldRight\<close>: whether the key \<open>t\<close> equals the ASCII field name under Unicode case
  folding. ASCII letters match in either case; U+017F folds to \<open>s\<close> and U+212A to \<open>k\<close>.
  (For a name of letters other than \<open>k\<close> and \<open>s\<close> the package uses
  \<^verbatim>\<open>simpleLetterEqualFold\<close>, which accepts the same keys.)
\<close>

fun equalFold :: "string \<Rightarrow> string \<Rightarrow> bool" where
  "equalFold [] t = (t = [])"
| "equalFold (sb # s) [] = False"
| "equalFold (sb # s) (tb # t) =
     (if byte tb < 0x80 then
        (if sb = tb then equalFold s t
         else if 0x41 \<le> caseMasked (byte sb) \<and> caseMasked (byte sb) \<le> 0x5A
                 \<and> caseMasked (byte sb) = caseMasked (byte tb)
         then equalFold s t
         else False)
      else
        (case DecodeRune (tb # t) of (tr, w) \<Rightarrow>
           if ((sb = CHR ''s'' \<or> sb = CHR ''S'') \<and> tr = 0x17F)
              \<or> ((sb = CHR ''k'' \<or> sb = CHR ''K'') \<and> tr = 0x212A)
           then equalFold s (drop (w - 1) t)
           else False))"

definition match_field :: "string \<Rightarrow> habit_field option" where
  "match_field key =
     (case filter (\<lambda>(n, f). n = key) habit_fields of
        (n, f) # _ \<Rightarrow> Some f
      | [] \<Rightarrow>
          (case filter (\<lambda>(n, f). equalFold n key) habit_fields of
             (n, f) # _ \<Rightarrow> Some f
           | [] \<Rightarrow> None))"

text \<open>A JSON value decoded into a string that holds \<open>old\<close>, and whether the type fitted.\<close>

fun decode_string :: "json \<Rightarrow> string \<Rightarrow> string \<times> bool" where
  "decode_string (JString x) old = (x, True)"
| "decode_string JNull old = (old, True)"
| "decode_string _ old = (old, False)"

text \<open>A JSON value decoded into a slice of strings that holds \<open>old\<close>; every element of an
  array is decoded into a fresh (empty) string.\<close>

fun decode_slice :: "json \<Rightarrow> string list option \<Rightarrow> string list option \<times> bool" where
  "decode_slice (JArray vs) old =
     (Some (map (\<lambda>v. fst (decode_string v [])) vs), list_all (\<lambda>v. snd (decode_string v [])) vs)"
| "decode_slice JNull old = (None, True)"
| "decode_slice _ old = (old, False)"

definition decode_member :: "string \<times> json \<Rightarrow> Habit \<times> bool \<Rightarrow> Habit \<times> bool" where
  "decode_member m hb =
     (case (m, hb) of ((key, v), (h, ok)) \<Rightarrow>
        (case match_field key of
           None \<Rightarrow> (h, ok)
         | Some FieldName \<Rightarrow>
             (case decode_string v (Name h) of (x, ok') \<Rightarrow> (h\<lparr>Name := x\<rparr>, ok \<and> ok'))
         | Some FieldType \<Rightarrow>
             (case decode_string v (Type h) of (x, ok') \<Rightarrow> (h\<lparr>Type := x\<rparr>, ok \<and> ok'))
         | Some FieldAttendees \<Rightarrow>
             (case decode_slice v (Attendees h) of (x, ok') \<Rightarrow> (h\<lparr>Attendees := x\<rparr>, ok \<and> ok'))
         | Some FieldOwner \<Rightarrow>
             (case decode_string v (Owner h) of (x, ok') \<Rightarrow> (h\<lparr>Owner := x\<rparr>, ok \<and> ok'))))"

text \<open>\<^verbatim>\<open>json.Unmarshal(data, &habit)\<close>: the habit afterwards and the error returned.\<close>

definition Unmarshal_Habit :: "bytes \<Rightarrow> Habit \<Rightarrow> Habit \<times> json_error option" where
  "Unmarshal_Habit data h =
     (case parse_json data of
        None \<Rightarrow> (h, Some SyntaxError)
      | Some (JObject ms) \<Rightarrow>
          (case foldl (\<lambda>hb m. decode_member m hb) (h, True) ms of
             (h', ok) \<Rightarrow> (h', if ok then None else Some UnmarshalTypeError))
      | Some JNull \<Rightarrow> (h, None)
      | Some _ \<Rightarrow> (h, Some UnmarshalTypeError))"

section \<open>The state store\<close>

text \<open>
  Modelled from the spec: the ledger interface \<^verbatim>\<open>shim.ChaincodeStubInterface\<close> belongs to
  the hosting platform and is not part of the repository. Section 6 of the specification
  gives its contract: \<open>get(key)\<close> returns the bytes at the key, empty if there are none, and
  never fails on a missing key; \<open>put(key, bytes)\<close> overwrites; \<open>range_scan(startKey, endKey)\<close>
  yields the entries with \<open>startKey \<le> key < endKey\<close> in lexical key order. The store is an
  association list; keys are compared byte by byte.
\<close>

type_synonym store = "(string \<times> bytes) list"

definition GetState :: "store \<Rightarrow> string \<Rightarrow> bytes" where
  "GetState st key = (case map_of st key of None \<Rightarrow> [] | Some v \<Rightarrow> v)"

definition PutState :: "store \<Rightarrow> string \<Rightarrow> bytes \<Rightarrow> store" where
  "PutState st key v = AList.update key v st"

fun key_less :: "string \<Rightarrow> string \<Rightarrow> bool" where
  "key_less [] [] = False"
| "key_less [] (b # bs) = True"
| "key_less (a # as) [] = False"
| "key_less (a # as) (b # bs) = (byte a < byte b \<or> (a = b \<and> key_less as bs))"

fun insert_key :: "string \<Rightarrow> string list \<Rightarrow> string list" where
  "insert_key k [] = [k]"
| "insert_key k (x # xs) = (if key_less x k then x # insert_key k xs else k # x # xs)"

definition sort_keys :: "string list \<Rightarrow> string list" where
  "sort_keys ks = foldr insert_key ks []"

text \<open>The iterator of a range scan: each step yields an entry or an error message. The
  store of the specification never fails, so every step yields an entry.\<close>

definition GetStateByRange ::
    "store \<Rightarrow> string \<Rightarrow> string \<Rightarrow> string + (string + string \<times> bytes) list" where
  "GetStateByRange st startKey endKey =
     Inr (map (\<lambda>k. Inr (k, GetState st k))
            (sort_keys (remdups (filter (\<lambda>k. \<not> key_less k startKey \<and> key_less k endKey)
                                        (map fst st)))))"

section \<open>The contract\<close>

text \<open>\<^verbatim>\<open>sc.Response\<close>, built by \<^verbatim>\<open>shim.Success\<close> (with its payload) or by
  \<^verbatim>\<open>shim.Error\<close> (with its message). Every operation takes the store and returns the
  response and the store it leaves.\<close>

datatype Response = Success bytes | Error string

definition queryHabit :: "store \<Rightarrow> string list \<Rightarrow> Response \<times> store" where
  "queryHabit st args =
     (if length args \<noteq> 1 then (Error ''Incorrect number of arguments. Expecting 1'', st)
      else let carAsBytes = GetState st (args ! 0) in (Success carAsBytes, st))"

definition seed_habits :: "Habit list" where
  "seed_habits =
     [\<lparr>Name = ''Running'', Type = ''Health'', Attendees = Some [''Ruby'', ''Kathy''], Owner = ''Kathy''\<rparr>,
      \<lparr>Name = ''English'', Type = ''Learning'', Attendees = Some [''Kathy''], Owner = ''Kathy''\<rparr>,
      \<lparr>Name = ''Workout'', Type = ''Health'', Attendees = Some [''Kimi'', ''Rocky''], Owner = ''Kimi''\<rparr>,
      \<lparr>Name = ''bark'', Type = ''Nature'', Attendees = Some [''Ruby'', ''Rocky''], Owner = ''Rocky''\<rparr>,
      \<lparr>Name = ''Blockchain'', Type = ''Learning'', Attendees = Some [''Kimi'', ''Ruby'', ''Rocky''],
        Owner = ''Kimi''\<rparr>]"

definition seed_people :: "Person list" where
  "seed_people =
     [\<lparr>PersonName = ''Kimi'', PersonAge = 29\<rparr>,
      \<lparr>PersonName = ''Kathy'', PersonAge = 28\<rparr>,
      \<lparr>PersonName = ''Ruby'', PersonAge = 5\<rparr>,
      \<lparr>PersonName = ''Rocky'', PersonAge = 3\<rparr>]"

text \<open>The two loops of \<^verbatim>\<open>initLedger\<close>, from index \<open>i\<close> on.\<close>

function put_habits :: "Habit list \<Rightarrow> nat \<Rightarrow> store \<Rightarrow> store" where
  "put_habits habits i st =
     (if i < length habits then
        put_habits habits (i + 1)
          (PutState st (''HABIT'' @ Itoa (int i)) (Marshal_Habit (habits ! i)))
      else st)"
  by pat_completeness auto
termination
  by (relation "measure (\<lambda>(habits, i, st). length habits - i)") auto

function put_people :: "Person list \<Rightarrow> nat \<Rightarrow> store \<Rightarrow> store" where
  "put_people people j st =
     (if j < length people then
        put_people people (j + 1)
          (PutState st (''PERSON'' @ Itoa (int j)) (Marshal_Person (people ! j)))
      else st)"
  by pat_completeness auto
termination
  by (relation "measure (\<lambda>(people, j, st). length people - j)") auto

declare put_habits.simps [simp del]
declare put_people.simps [simp del]

definition initLedger :: "store \<Rightarrow> Response \<times> store" where
  "initLedger st = (Success [], put_people seed_people 0 (put_habits seed_habits 0 st))"

definition createHabit :: "store \<Rightarrow> string list \<Rightarrow> Response \<times> store" where
  "createHabit st args =
     (if length args \<noteq> 5 then (Error ''Incorrect number of arguments. Expecting 5'', st)
      else
        let attendees = Some [args ! 3];
            habit = \<lparr>Name = args ! 1, Type = args ! 2, Attendees = attendees, Owner = args ! 4\<rparr>;
            habitAsBytes = Marshal_Habit habit
        in (Success [], PutState st (args ! 0) habitAsBytes))"

text \<open>The loop of \<^verbatim>\<open>queryAllHabits\<close> over the iterator, with the buffer written so far;
  \<open>written\<close> is \<^verbatim>\<open>bArrayMemberAlreadyWritten\<close>. An error of the iterator ends the loop
  with that error.\<close>

fun write_results :: "bool \<Rightarrow> string \<Rightarrow> (string + string \<times> bytes) list \<Rightarrow> string + string" where
  "write_results written buffer [] = Inr buffer"
| "write_results written buffer (Inl err # rest) = Inl err"
| \<open>write_results written buffer (Inr (key, v) # rest) =
     write_results True
       (buffer @ (if written then '','' else [])
          @ ''{"Key":'' @ [dquote] @ key @ [dquote]
          @ '', "Record":'' @ v @ ''}'')
       rest\<close>

definition queryAllHabits :: "store \<Rightarrow> Response \<times> store" where
  "queryAllHabits st =
     (let startKey = ''HABIT0''; endKey = ''HABIT999'' in
      case GetStateByRange st startKey endKey of
        Inl err \<Rightarrow> (Error err, st)
      | Inr resultsIterator \<Rightarrow>
          (case write_results False ''['' resultsIterator of
             Inl err \<Rightarrow> (Error err, st)
           | Inr buffer \<Rightarrow> (Success (buffer @ '']''), st)))"

definition changeHabitOwner :: "store \<Rightarrow> string list \<Rightarrow> Response \<times> store" where
  "changeHabitOwner st args =
     (if length args \<noteq> 2 then (Error ''Incorrect number of arguments. Expecting 2'', st)
      else
        let habitAsBytes = GetState st (args ! 0);
            habit = fst (Unmarshal_Habit habitAsBytes zero_Habit);
            habit = habit\<lparr>Owner := args ! 1\<rparr>;
            habitAsBytes = Marshal_Habit habit
        in (Success [], PutState st (args ! 0) habitAsBytes))"

definition changeHabitAttendees :: "store \<Rightarrow> string list \<Rightarrow> Response \<times> store" where
  "changeHabitAttendees st args =
     (if length args \<noteq> 2 then (Error ''Incorrect number of arguments. Expecting 2'', st)
      else
        let habitAsBytes = GetState st (args ! 0);
            habit = fst (Unmarshal_Habit habitAsBytes zero_Habit);
            attendees = append_slice (Attendees habit) (args ! 1);
            habit = habit\<lparr>Attendees := attendees\<rparr>;
            habitAsBytes = Marshal_Habit habit
        in (Success [], PutState st (args ! 0) habitAsBytes))"

definition Init :: "store \<Rightarrow> Response \<times> store" where
  "Init st = (Success [], st)"

text \<open>\<^verbatim>\<open>Invoke\<close>, with the function name and the arguments that
  \<^verbatim>\<open>GetFunctionAndParameters\<close> returns.\<close>

definition Invoke :: "store \<Rightarrow> string \<Rightarrow> string list \<Rightarrow> Response \<times> store" where
  "Invoke st function args =
     (if function = ''queryHabit'' then queryHabit st args
      else if function = ''initLedger'' then initLedger st
      else if function = ''createHabit'' then createHabit st args
      else if function = ''queryAllHabits'' then queryAllHabits st
      else if function = ''changeHabitOwner'' then changeHabitOwner st args
      else if function = ''changeHabitAttendees'' then changeHabitAttendees st args
      else (Error ''Invalid Smart Contract function name.'', st))"

text \<open>\<^verbatim>\<open>strings.Contains\<close>.\<close>

fun has_prefix :: "string \<Rightarrow> string \<Rightarrow> bool" where
  "has_prefix [] s = True"
| "has_prefix (p # ps) [] = False"
| "has_prefix (p # ps) (c # s) = (p = c \<and> has_prefix ps s)"

fun Contains :: "string \<Rightarrow> string \<Rightarrow> bool" where
  "Contains [] sub = (sub = [])"
| "Contains (c # s) sub = (has_prefix sub (c # s) \<or> Contains s sub)"

text \<open>The keys that \<^verbatim>\<open>initLedger\<close> writes and the values it writes there.\<close>

definition seed_keys :: "string list" where
  "seed_keys = [''HABIT0'', ''HABIT1'', ''HABIT2'', ''HABIT3'', ''HABIT4'',
                ''PERSON0'', ''PERSON1'', ''PERSON2'', ''PERSON3'']"

definition seed_values :: "bytes list" where
  "seed_values = map Marshal_Habit seed_habits @ map Marshal_Person seed_people"

text \<open>A habit with every string coerced to valid UTF-8: what the decoder reads back
  from the encoding of a habit.\<close>

definition coerce_Habit :: "Habit \<Rightarrow> Habit" where
  "coerce_Habit h =
     \<lparr>Name = coerce_utf8 (Name h), Type = coerce_utf8 (Type h),
      Attendees = map_option (map coerce_utf8) (Attendees h), Owner = coerce_utf8 (Owner h)\<rparr>"

text \<open>The JSON value that stands for a habit.\<close>

definition json_of_Habit :: "Habit \<Rightarrow> json" where
  "json_of_Habit h =
     JObject [(''name'', JString (Name h)), (''type'', JString (Type h)),
              (''attendees'',
                 (case Attendees h of None \<Rightarrow> JNull | Some xs \<Rightarrow> JArray (map JString xs))),
              (''owner'', JString (Owner h))]"

fun json_of_slice :: "string list option \<Rightarrow> json" where
  "json_of_slice None = JNull"
| "json_of_slice (Some xs) = JArray (map (\<lambda>a. JString (coerce_utf8 a)) xs)"

section \<open>UTF-8: encoding a decoded rune gives the bytes back\<close>

lemma dm_div: "z < m \<Longrightarrow> (q * m + z) div m = (q::nat)"
  by simp

lemma dm_mod: "z < m \<Longrightarrow> (q * m + z) mod m = (z::nat)"
  by simp

lemma lead_mod:
  fixes a :: nat
  assumes "k * m \<le> a" "a < k * m + m"
  shows "a mod m = a - k * m"
proof -
  have "a = k * m + (a - k * m)" using assms by simp
  moreover have "a - k * m < m" using assms by simp
  ultimately show ?thesis by (metis dm_mod)
qed

lemma r3_div4096: "y < 64 \<Longrightarrow> z < 64 \<Longrightarrow> (x * 4096 + y * 64 + z) div 4096 = (x::nat)"
proof -
  assume "y < 64" "z < 64"
  then have "y * 64 + z < 4096" by simp
  then have "(x * 4096 + (y * 64 + z)) div 4096 = x" by (rule dm_div)
  then show ?thesis by (simp add: add.assoc)
qed

lemma r3_div64: "z < 64 \<Longrightarrow> (x * 4096 + y * 64 + z) div 64 = x * 64 + (y::nat)"
proof -
  assume "z < 64"
  then have "((x * 64 + y) * 64 + z) div 64 = x * 64 + y" by (rule dm_div)
  then show ?thesis by (simp add: algebra_simps)
qed

lemma r3_mod64: "z < 64 \<Longrightarrow> (x * 4096 + y * 64 + z) mod 64 = (z::nat)"
proof -
  assume "z < 64"
  then have "((x * 64 + y) * 64 + z) mod 64 = z" by (rule dm_mod)
  then show ?thesis by (simp add: algebra_simps)
qed

lemma byte_lt: "byte c < 256"
  by (simp add: byte_def)

lemma char_of_byte: "char_of (byte c) = c"
  by (simp add: byte_def)

lemma first_size_cases:
  "first_size a = 1 \<longleftrightarrow> a < 0x80"
  "first_size a = 2 \<longleftrightarrow> 0xC2 \<le> a \<and> a < 0xE0"
  "first_size a = 3 \<longleftrightarrow> 0xE0 \<le> a \<and> a < 0xF0"
  "first_size a = 4 \<longleftrightarrow> 0xF0 \<le> a \<and> a < 0xF5"
  "first_size a = 0 \<longleftrightarrow> (0x80 \<le> a \<and> a < 0xC2) \<or> 0xF5 \<le> a"
  by (auto simp: first_size_def)

lemma first_size_le4: "first_size a \<le> 4"
  by (simp add: first_size_def)

lemma DecodeRune_1: "byte c < 0x80 \<Longrightarrow> DecodeRune (c # s) = (byte c, 1)"
  by (simp add: first_size_def)

lemma DecodeRune_0: "first_size (byte c) = 0 \<Longrightarrow> DecodeRune (c # s) = (RuneError, 1)"
  by simp

lemma DecodeRune_2:
  assumes "0xC2 \<le> byte c" "byte c < 0xE0"
  shows "DecodeRune (c # s) =
    (case s of [] \<Rightarrow> (RuneError, 1)
     | c1 # _ \<Rightarrow> if byte c1 < 0x80 \<or> 0xBF < byte c1 then (RuneError, 1)
                else ((byte c mod 32) * 64 + byte c1 mod 64, 2))"
proof -
  have "first_size (byte c) = 2" using assms by (simp add: first_size_cases)
  moreover have "accept_lo (byte c) = 0x80" "accept_hi (byte c) = 0xBF"
    using assms by (simp_all add: accept_lo_def accept_hi_def)
  ultimately show ?thesis by (simp split: list.split)
qed

lemma DecodeRune_3:
  assumes "0xE0 \<le> byte c" "byte c < 0xF0"
  shows "DecodeRune (c # s) =
    (case s of c1 # c2 # _ \<Rightarrow>
        if byte c1 < accept_lo (byte c) \<or> accept_hi (byte c) < byte c1 then (RuneError, 1)
        else if byte c2 < 0x80 \<or> 0xBF < byte c2 then (RuneError, 1)
        else ((byte c mod 16) * 4096 + (byte c1 mod 64) * 64 + byte c2 mod 64, 3)
     | _ \<Rightarrow> (RuneError, 1))"
proof -
  have "first_size (byte c) = 3" using assms by (simp add: first_size_cases)
  then show ?thesis by (auto simp: Let_def split: list.split)
qed

lemma DecodeRune_4:
  assumes "0xF0 \<le> byte c" "byte c < 0xF5"
  shows "DecodeRune (c # s) =
    (case s of c1 # c2 # c3 # _ \<Rightarrow>
        if byte c1 < accept_lo (byte c) \<or> accept_hi (byte c) < byte c1 then (RuneError, 1)
        else if byte c2 < 0x80 \<or> 0xBF < byte c2 then (RuneError, 1)
        else if byte c3 < 0x80 \<or> 0xBF < byte c3 then (RuneError, 1)
        else ((byte c mod 8) * 262144 + (byte c1 mod 64) * 4096 + (byte c2 mod 64) * 64
                + byte c3 mod 64, 4)
     | _ \<Rightarrow> (RuneError, 1))"
proof -
  have "first_size (byte c) = 4" using assms by (simp add: first_size_cases)
  then show ?thesis by (auto simp: Let_def split: list.split)
qed

lemma cont_mod: "0x80 \<le> b \<Longrightarrow> b \<le> 0xBF \<Longrightarrow> b mod 64 = b - (128::nat)"
  using lead_mod [of 2 64 b] by simp

lemma enc_two:
  assumes a: "0xC2 \<le> byte c" "byte c < 0xE0" and b: "0x80 \<le> byte c1" "byte c1 \<le> 0xBF"
    and r: "r = (byte c mod 32) * 64 + byte c1 mod 64"
  shows "EncodeRune r = [c, c1]"
proof -
  define x where "x = byte c - 192"
  define y where "y = byte c1 - 128"
  have xa: "byte c = 192 + x" and xb: "2 \<le> x" "x < 32" using a by (simp_all add: x_def)
  have ya: "byte c1 = 128 + y" and yb: "y < 64" using b by (simp_all add: y_def)
  have "byte c mod 32 = x" using lead_mod [of 6 32 "byte c"] a by (simp add: x_def)
  moreover have "byte c1 mod 64 = y" using cont_mod b by (simp add: y_def)
  ultimately have r': "r = x * 64 + y" using r by simp
  have d: "r div 64 = x" and m: "r mod 64 = y" using yb by (simp_all add: r')
  have lo: "\<not> r \<le> 0x7F" using xb by (simp add: r')
  have hi: "r \<le> 0x7FF" using xb yb by (simp add: r')
  have "EncodeRune r = [char_of (0xC0 + r div 64), char_of (0x80 + r mod 64)]"
    using lo hi by (simp add: EncodeRune_def)
  also have "\<dots> = [char_of (byte c), char_of (byte c1)]" by (simp add: d m xa ya)
  finally show ?thesis by (simp add: char_of_byte)
qed

lemma enc_three:
  assumes a: "0xE0 \<le> byte c" "byte c < 0xF0"
    and b: "accept_lo (byte c) \<le> byte c1" "byte c1 \<le> accept_hi (byte c)"
    and c: "0x80 \<le> byte c2" "byte c2 \<le> 0xBF"
    and r: "r = (byte c mod 16) * 4096 + (byte c1 mod 64) * 64 + byte c2 mod 64"
  shows "EncodeRune r = [c, c1, c2]"
proof -
  define x where "x = byte c - 224"
  define y where "y = byte c1 - 128"
  define z where "z = byte c2 - 128"
  have b': "0x80 \<le> byte c1" "byte c1 \<le> 0xBF"
    using b by (simp_all add: accept_lo_def accept_hi_def split: if_splits)
  have xa: "byte c = 224 + x" and xb: "x < 16" using a by (simp_all add: x_def)
  have ya: "byte c1 = 128 + y" and yb: "y < 64" using b' by (simp_all add: y_def)
  have za: "byte c2 = 128 + z" and zb: "z < 64" using c by (simp_all add: z_def)
  have x0: "x = 0 \<Longrightarrow> 32 \<le> y" using b(1) by (simp add: accept_lo_def xa ya split: if_splits)
  have x13: "x = 13 \<Longrightarrow> y < 32" using b(2) by (simp add: accept_hi_def xa ya split: if_splits)
  have "byte c mod 16 = x" using lead_mod [of 14 16 "byte c"] a by (simp add: x_def)
  moreover have "byte c1 mod 64 = y" using cont_mod b' by (simp add: y_def)
  moreover have "byte c2 mod 64 = z" using cont_mod c by (simp add: z_def)
  ultimately have r': "r = x * 4096 + y * 64 + z" using r by simp
  have d1: "r div 4096 = x" unfolding r' using yb zb by (rule r3_div4096)
  have d2: "(r div 64) mod 64 = y"
  proof -
    have "r div 64 = x * 64 + y" unfolding r' using zb by (rule r3_div64)
    then show ?thesis using yb by simp
  qed
  have d3: "r mod 64 = z" unfolding r' using zb by (rule r3_mod64)
  have lo: "\<not> r \<le> 0x7FF"
  proof (cases "x = 0")
    case True then show ?thesis using x0 by (simp add: r')
  next
    case False then show ?thesis by (simp add: r')
  qed
  have hi: "r \<le> 0xFFFF" using xb yb zb by (simp add: r')
  have sur: "\<not> (0xD800 \<le> r \<and> r \<le> 0xDFFF)"
  proof -
    consider "x < 13" | "x = 13" | "13 < x" by linarith
    then show ?thesis
    proof cases
      case 1 then show ?thesis using yb zb by (simp add: r')
    next
      case 2 then show ?thesis using x13 zb by (simp add: r')
    next
      case 3 then show ?thesis by (simp add: r')
    qed
  qed
  have "EncodeRune r = enc3 r"
    using lo hi sur by (auto simp: EncodeRune_def MaxRune_def)
  also have "\<dots> = [char_of (byte c), char_of (byte c1), char_of (byte c2)]"
    by (simp add: enc3_def d1 d2 d3 xa ya za)
  finally show ?thesis by (simp add: char_of_byte)
qed

declare DecodeRune.simps [simp del]

lemma r4_split: "x * 262144 + y * 4096 + z * 64 + v = (x * 64 + y) * 4096 + z * 64 + (v::nat)"
  by (simp add: algebra_simps)

lemma enc_four:
  assumes a: "0xF0 \<le> byte c" "byte c < 0xF5"
    and b: "accept_lo (byte c) \<le> byte c1" "byte c1 \<le> accept_hi (byte c)"
    and c: "0x80 \<le> byte c2" "byte c2 \<le> 0xBF"
    and d: "0x80 \<le> byte c3" "byte c3 \<le> 0xBF"
    and r: "r = (byte c mod 8) * 262144 + (byte c1 mod 64) * 4096 + (byte c2 mod 64) * 64
                + byte c3 mod 64"
  shows "EncodeRune r = [c, c1, c2, c3]"
proof -
  define x where "x = byte c - 240"
  define y where "y = byte c1 - 128"
  define z where "z = byte c2 - 128"
  define v where "v = byte c3 - 128"
  have b': "0x80 \<le> byte c1" "byte c1 \<le> 0xBF"
    using b by (simp_all add: accept_lo_def accept_hi_def split: if_splits)
  have xa: "byte c = 240 + x" and xb: "x < 5" using a by (simp_all add: x_def)
  have ya: "byte c1 = 128 + y" and yb: "y < 64" using b' by (simp_all add: y_def)
  have za: "byte c2 = 128 + z" and zb: "z < 64" using c by (simp_all add: z_def)
  have va: "byte c3 = 128 + v" and vb: "v < 64" using d by (simp_all add: v_def)
  have x0: "x = 0 \<Longrightarrow> 16 \<le> y" using b(1) by (simp add: accept_lo_def xa ya split: if_splits)
  have x4: "x = 4 \<Longrightarrow> y < 16" using b(2) by (simp add: accept_hi_def xa ya split: if_splits)
  have "byte c mod 8 = x" using lead_mod [of 30 8 "byte c"] a by (simp add: x_def)
  moreover have "byte c1 mod 64 = y" using cont_mod b' by (simp add: y_def)
  moreover have "byte c2 mod 64 = z" using cont_mod c by (simp add: z_def)
  moreover have "byte c3 mod 64 = v" using cont_mod d by (simp add: v_def)
  ultimately have r': "r = (x * 64 + y) * 4096 + z * 64 + v" using r by (simp add: r4_split)
  have q: "r div 4096 = x * 64 + y" unfolding r' using zb vb by (rule r3_div4096)
  have d0: "r div 262144 = x"
  proof -
    have "r div 262144 = (r div 4096) div 64" by (simp add: div_mult2_eq)
    then show ?thesis using yb by (simp add: q)
  qed
  have d1: "(r div 4096) mod 64 = y" using yb by (simp add: q)
  have d2: "(r div 64) mod 64 = z"
  proof -
    have e: "r div 64 = (x * 64 + y) * 64 + z" unfolding r' using vb by (rule r3_div64)
    have "((x * 64 + y) * 64 + z) mod 64 = z" using zb by (rule dm_mod)
    then show ?thesis by (simp only: e)
  qed
  have d3: "r mod 64 = v" unfolding r' using vb by (rule r3_mod64)
  have lo: "\<not> r \<le> 0xFFFF"
  proof (cases "x = 0")
    case True then show ?thesis using x0 by (simp add: r')
  next
    case False then show ?thesis by (simp add: r')
  qed
  have hi: "\<not> r > MaxRune"
  proof (cases "x = 4")
    case True then show ?thesis using x4 zb vb by (simp add: r' MaxRune_def)
  next
    case False
    then have "x \<le> 3" using xb by simp
    then have "x * 64 + y \<le> 255" using yb by simp
    then have "(x * 64 + y) * 4096 \<le> 255 * 4096" by (rule mult_le_mono1)
    then show ?thesis using zb vb by (simp add: r' MaxRune_def)
  qed
  have "EncodeRune r = [char_of (0xF0 + r div 262144), char_of (0x80 + (r div 4096) mod 64),
            char_of (0x80 + (r div 64) mod 64), char_of (0x80 + r mod 64)]"
    using lo hi by (auto simp: EncodeRune_def)
  also have "\<dots> = [char_of (byte c), char_of (byte c1), char_of (byte c2), char_of (byte c3)]"
    by (simp add: d0 d1 d2 d3 xa ya za va)
  finally show ?thesis by (simp add: char_of_byte)
qed

text \<open>A sequence that decodes to something other than (RuneError, 1).\<close>

lemma DecodeRune_valid:
  assumes dr: "DecodeRune (c # s) = (r, w)" and ok: "\<not> (r = RuneError \<and> w = 1)"
  shows "1 \<le> w \<and> w - 1 \<le> length s \<and> EncodeRune r = c # take (w - 1) s
         \<and> DecodeRune (c # take (w - 1) s @ t) = (r, w)"
proof -
  consider (one) "byte c < 0x80" | (zero) "first_size (byte c) = 0"
    | (two) "0xC2 \<le> byte c" "byte c < 0xE0"
    | (three) "0xE0 \<le> byte c" "byte c < 0xF0"
    | (four) "0xF0 \<le> byte c" "byte c < 0xF5"
    using first_size_cases(5) [of "byte c"] by linarith
  then show ?thesis
  proof cases
    case one
    then have "r = byte c" "w = 1" using dr by (simp_all add: DecodeRune_1)
    then show ?thesis using one by (simp add: DecodeRune_1 EncodeRune_def char_of_byte)
  next
    case zero
    then show ?thesis using dr ok by (simp add: DecodeRune_0)
  next
    case two
    note D = DecodeRune_2 [OF two]
    from dr ok obtain c1 s' where s: "s = c1 # s'"
      and b: "0x80 \<le> byte c1" "byte c1 \<le> 0xBF"
      and r: "r = (byte c mod 32) * 64 + byte c1 mod 64" and w: "w = 2"
      by (auto simp: D split: list.splits if_splits)
    have "EncodeRune r = [c, c1]" using two b r by (rule enc_two)
    moreover have "DecodeRune (c # c1 # t) = (r, 2)" using b r by (simp add: D)
    ultimately show ?thesis by (simp add: s w)
  next
    case three
    note D = DecodeRune_3 [OF three]
    from dr ok obtain c1 c2 s' where s: "s = c1 # c2 # s'"
      and b: "accept_lo (byte c) \<le> byte c1" "byte c1 \<le> accept_hi (byte c)"
      and c: "0x80 \<le> byte c2" "byte c2 \<le> 0xBF"
      and r: "r = (byte c mod 16) * 4096 + (byte c1 mod 64) * 64 + byte c2 mod 64"
      and w: "w = 3"
      by (auto simp: D split: list.splits if_splits)
    have "EncodeRune r = [c, c1, c2]" using three b c r by (rule enc_three)
    moreover have "DecodeRune (c # c1 # c2 # t) = (r, 3)" using b c r by (simp add: D)
    ultimately show ?thesis by (simp add: s w)
  next
    case four
    note D = DecodeRune_4 [OF four]
    from dr ok obtain c1 c2 c3 s' where s: "s = c1 # c2 # c3 # s'"
      and b: "accept_lo (byte c) \<le> byte c1" "byte c1 \<le> accept_hi (byte c)"
      and c: "0x80 \<le> byte c2" "byte c2 \<le> 0xBF"
      and d: "0x80 \<le> byte c3" "byte c3 \<le> 0xBF"
      and r: "r = (byte c mod 8) * 262144 + (byte c1 mod 64) * 4096 + (byte c2 mod 64) * 64
                + byte c3 mod 64"
      and w: "w = 4"
      by (auto simp: D split: list.splits if_splits)
    have "EncodeRune r = [c, c1, c2, c3]" using four b c d r by (rule enc_four)
    moreover have "DecodeRune (c # c1 # c2 # c3 # t) = (r, 4)" using b c d r by (simp add: D)
    ultimately show ?thesis by (simp add: s w)
  qed
qed

section \<open>The string encoder and the scanner\<close>

lemma byte_dquote: "byte dquote = 0x22"
  by (simp add: byte_def dquote_def)

lemma byte_backslash: "byte backslash = 0x5C"
  by (simp add: byte_def backslash_def)

lemma all_below_16:
  assumes "P 0" "P 1" "P 2" "P 3" "P 4" "P 5" "P 6" "P 7" "P 8" "P 9" "P 10" "P 11" "P 12"
    "P 13" "P 14" "P 15" and "n < (16::nat)"
  shows "P n"
proof -
  have "n \<in> set [0..<16]" using assms(17) by simp
  also have "[0..<16] = [0, 1, 2, 3, 4, 5, 6, 7, 8, 9, 10, 11, 12, 13, 14, 15::nat]"
    by code_simp
  finally show ?thesis using assms(1-16) by auto
qed

lemma hexval_digit_char: "n < 16 \<Longrightarrow> hexval (digit_char n) = Some n"
  by (erule all_below_16 [rotated -1]) (simp_all add: hexval_def digit_char_def byte_def)

lemma hexval_consts:
  "hexval (CHR ''0'') = Some 0" "hexval (CHR ''2'') = Some 2"
  "hexval (CHR ''f'') = Some 15" "hexval (CHR ''d'') = Some 13"
  by (simp_all add: hexval_def byte_def)

text \<open>A valid multi-byte sequence consists of bytes from 0x80 on.\<close>

lemma DecodeRune_high:
  assumes dr: "DecodeRune (c # s) = (r, w)" and ok: "\<not> (r = RuneError \<and> w = 1)"
    and hi: "0x80 \<le> byte c"
  shows "\<forall>b \<in> set (c # take (w - 1) s). 0x80 \<le> byte b"
proof -
  consider (zero) "first_size (byte c) = 0"
    | (two) "0xC2 \<le> byte c" "byte c < 0xE0"
    | (three) "0xE0 \<le> byte c" "byte c < 0xF0"
    | (four) "0xF0 \<le> byte c" "byte c < 0xF5"
    using first_size_cases(5) [of "byte c"] hi by linarith
  then show ?thesis
  proof cases
    case zero
    then show ?thesis using dr ok by (simp add: DecodeRune_0)
  next
    case two
    show ?thesis using dr ok hi
      by (auto simp: DecodeRune_2 [OF two] split: list.splits if_splits)
  next
    case three
    show ?thesis using dr ok hi
      by (auto simp: DecodeRune_3 [OF three] accept_lo_def split: list.splits if_splits)
  next
    case four
    show ?thesis using dr ok hi
      by (auto simp: DecodeRune_4 [OF four] accept_lo_def split: list.splits if_splits)
  qed
qed

lemma scan_string_plain:
  "c \<noteq> dquote \<Longrightarrow> c \<noteq> backslash \<Longrightarrow> 0x20 \<le> byte c \<Longrightarrow>
   scan_string (c # x) = map_option (\<lambda>(l, r). (c # l, r)) (scan_string x)"
  by simp

lemma scan_string_high:
  "\<forall>b \<in> set p. 0x80 \<le> byte b \<Longrightarrow>
   scan_string (p @ x) = map_option (\<lambda>(l, r). (p @ l, r)) (scan_string x)"
proof (induction p)
  case Nil
  show ?case by (simp add: option.map_ident)
next
  case (Cons c p)
  then have c: "0x80 \<le> byte c" by simp
  then have "c \<noteq> dquote" "c \<noteq> backslash" "0x20 \<le> byte c"
    using byte_dquote byte_backslash by auto
  then have "scan_string ((c # p) @ x) = map_option (\<lambda>(l, r). (c # l, r)) (scan_string (p @ x))"
    by simp
  also have "\<dots> = map_option (\<lambda>(l, r). ((c # p) @ l, r)) (scan_string x)"
    using Cons by (simp add: option.map_comp comp_def case_prod_unfold)
  finally show ?case .
qed

lemma scan_string_simple:
  "simple_escape e \<Longrightarrow>
   scan_string (backslash # e # x) = map_option (\<lambda>(l, r). (backslash # e # l, r)) (scan_string x)"
  by (simp add: dquote_def backslash_def)

lemma scan_string_u:
  "hexval h1 \<noteq> None \<Longrightarrow> hexval h2 \<noteq> None \<Longrightarrow> hexval h3 \<noteq> None \<Longrightarrow> hexval h4 \<noteq> None \<Longrightarrow>
   scan_string (backslash # CHR ''u'' # h1 # h2 # h3 # h4 # x)
     = map_option (\<lambda>(l, r). (backslash # CHR ''u'' # h1 # h2 # h3 # h4 # l, r)) (scan_string x)"
  by (simp add: dquote_def backslash_def simple_escape_def)

lemma scan_string_escape_byte:
  assumes "byte c < 0x80"
  shows "scan_string (escape_byte c @ x)
     = map_option (\<lambda>(l, r). (escape_byte c @ l, r)) (scan_string x)"
proof -
  have d: "byte c div 16 < 16" "byte c mod 16 < 16" using assms by simp_all
  show ?thesis
    unfolding escape_byte_def
    by (auto simp: scan_string_simple scan_string_u hexval_digit_char d hexval_consts
        simple_escape_def simp del: scan_string.simps)
qed

lemma scan_string_encode_chars:
  "scan_string (encode_chars s @ dquote # rest) = Some (encode_chars s, rest)"
proof (induction s rule: encode_chars.induct)
  case 1
  show ?case by simp
next
  case (2 c s)
  show ?case
  proof (cases "byte c < 0x80")
    case True
    note IH = "2.IH"(1) [OF True]
    show ?thesis
    proof (cases "htmlSafe (byte c)")
      case safe: True
      then have "c \<noteq> dquote" "c \<noteq> backslash" "0x20 \<le> byte c"
        using byte_dquote byte_backslash by (auto simp: htmlSafe_def)
      then show ?thesis using True safe IH by (simp del: scan_string.simps add: scan_string_plain)
    next
      case False
      then show ?thesis using True IH
        by (simp del: scan_string.simps add: scan_string_escape_byte)
    qed
  next
    case False
    obtain r w where dr: "DecodeRune (c # s) = (r, w)" by (cases "DecodeRune (c # s)")
    show ?thesis
    proof (cases "r = RuneError \<and> w = 1")
      case True
      then show ?thesis using False dr "2.IH"(2) [OF False dr [symmetric]]
        by (simp del: scan_string.simps add: scan_string_u hexval_consts)
    next
      case nb: False
      have r16: "r mod 16 < 16" by simp
      show ?thesis
      proof (cases "r = 0x2028 \<or> r = 0x2029")
        case True
        then have "r \<noteq> RuneError" by (auto simp: RuneError_def)
        then show ?thesis using True False dr "2.IH"(3) [OF False dr [symmetric] nb]
          by (simp del: scan_string.simps add: scan_string_u hexval_consts hexval_digit_char r16)
      next
        case nsep: False
        have hi: "\<forall>b \<in> set (c # take (w - 1) s). 0x80 \<le> byte b"
          using dr nb False by (intro DecodeRune_high) auto
        have "scan_string ((c # take (w - 1) s) @ encode_chars (drop (w - 1) s) @ dquote # rest)
            = map_option (\<lambda>(l, r). ((c # take (w - 1) s) @ l, r))
                (scan_string (encode_chars (drop (w - 1) s) @ dquote # rest))"
          using hi by (rule scan_string_high)
        then show ?thesis using False dr nb nsep "2.IH"(4) [OF False dr [symmetric] nb nsep]
          by (auto simp del: scan_string.simps)
      qed
    qed
  qed
qed

section \<open>Unquoting an encoded string\<close>

lemma unquote_plain:
  "c \<noteq> backslash \<Longrightarrow> c \<noteq> dquote \<Longrightarrow> 0x20 \<le> byte c \<Longrightarrow> byte c < 0x80 \<Longrightarrow>
   unquote (c # x) = map_option ((#) c) (unquote x)"
  by (subst unquote.simps) simp

lemma unquote_escape:
  "e \<noteq> CHR ''u'' \<Longrightarrow> unescape e = Some y \<Longrightarrow>
   unquote (backslash # e # x) = map_option ((#) y) (unquote x)"
  by (subst unquote.simps) simp

lemma getu4_digits:
  "hexval h1 = Some x1 \<Longrightarrow> hexval h2 = Some x2 \<Longrightarrow> hexval h3 = Some x3 \<Longrightarrow> hexval h4 = Some x4 \<Longrightarrow>
   getu4 (backslash # CHR ''u'' # h1 # h2 # h3 # h4 # x) = Some (((x1 * 16 + x2) * 16 + x3) * 16 + x4)"
  by (simp add: getu4_def)

lemma unquote_u:
  "getu4 (backslash # CHR ''u'' # h1 # h2 # h3 # h4 # x) = Some rr \<Longrightarrow> \<not> IsSurrogate rr \<Longrightarrow>
   unquote (backslash # CHR ''u'' # h1 # h2 # h3 # h4 # x) = map_option ((@) (EncodeRune rr)) (unquote x)"
  by (subst unquote.simps) simp

lemma unquote_high:
  "0x80 \<le> byte c \<Longrightarrow> DecodeRune (c # x) = (rr, w) \<Longrightarrow>
   unquote (c # x) = map_option ((@) (EncodeRune rr)) (unquote (drop (w - 1) x))"
  using byte_dquote byte_backslash by (subst unquote.simps) auto

lemma append_single_fun: "(@) [c] = (#) c"
  by (rule ext) simp

lemma EncodeRune_ascii: "byte c < 0x80 \<Longrightarrow> EncodeRune (byte c) = [c]"
  by (simp add: EncodeRune_def char_of_byte)

lemma unquote_escape_byte:
  assumes lt: "byte c < 0x80"
  shows "unquote (escape_byte c @ x) = map_option ((#) c) (unquote x)"
proof -
  have d: "byte c div 16 < 16" "byte c mod 16 < 16" using lt by simp_all
  have g: "getu4 (backslash # CHR ''u'' # CHR ''0'' # CHR ''0'' # digit_char (byte c div 16)
                  # digit_char (byte c mod 16) # x) = Some (byte c)"
    using getu4_digits [OF hexval_consts(1) hexval_consts(1) hexval_digit_char [OF d(1)]
        hexval_digit_char [OF d(2)], of x]
    by simp
  have ns: "\<not> IsSurrogate (byte c)" using lt by (simp add: IsSurrogate_def)
  have u: "unquote (backslash # CHR ''u'' # CHR ''0'' # CHR ''0'' # digit_char (byte c div 16)
                  # digit_char (byte c mod 16) # x) = map_option ((#) c) (unquote x)"
    using unquote_u [OF g ns] lt by (simp add: EncodeRune_ascii append_single_fun)
  have e1: "unescape backslash = Some backslash" "unescape dquote = Some dquote"
    "unescape (CHR ''n'') = Some (CHR 0x0A)" "unescape (CHR ''r'') = Some (CHR 0x0D)"
    "unescape (CHR ''t'') = Some (CHR 0x09)"
    by (simp_all add: unescape_def dquote_def backslash_def)
  have ne: "backslash \<noteq> CHR ''u''" "dquote \<noteq> CHR ''u''"
    by (simp_all add: dquote_def backslash_def)
  show ?thesis
    unfolding escape_byte_def
    using u by (auto simp: unquote_escape e1 ne)
qed

lemma unquote_encode_chars: "unquote (encode_chars s) = Some (coerce_utf8 s)"
proof (induction s rule: encode_chars.induct)
  case 1
  show ?case by (simp add: unquote.simps)
next
  case (2 c s)
  show ?case
  proof (cases "byte c < 0x80")
    case True
    note IH = "2.IH"(1) [OF True]
    have co: "coerce_utf8 (c # s) = c # coerce_utf8 s"
      using True by (simp add: DecodeRune_1 RuneError_def)
    show ?thesis
    proof (cases "htmlSafe (byte c)")
      case safe: True
      then have "c \<noteq> dquote" "c \<noteq> backslash" "0x20 \<le> byte c"
        using byte_dquote byte_backslash by (auto simp: htmlSafe_def)
      then show ?thesis using True safe IH co by (simp add: unquote_plain)
    next
      case False
      then show ?thesis using True IH co by (simp add: unquote_escape_byte)
    qed
  next
    case False
    obtain r w where dr: "DecodeRune (c # s) = (r, w)" by (cases "DecodeRune (c # s)")
    show ?thesis
    proof (cases "r = RuneError \<and> w = 1")
      case True
      have g: "getu4 (backslash # CHR ''u'' # CHR ''f'' # CHR ''f'' # CHR ''f'' # CHR ''d''
                 # encode_chars s) = Some RuneError"
        using getu4_digits [OF hexval_consts(3) hexval_consts(3) hexval_consts(3) hexval_consts(4)]
        by (simp add: RuneError_def)
      have ns: "\<not> IsSurrogate RuneError" by (simp add: IsSurrogate_def RuneError_def)
      show ?thesis using True False dr "2.IH"(2) [OF False dr [symmetric]] unquote_u [OF g ns]
        by simp
    next
      case nb: False
      note V = DecodeRune_valid [OF dr nb]
      have enc: "EncodeRune r = c # take (w - 1) s" using V by simp
      have len: "length (take (w - 1) s) = w - 1" using V by simp
      have co: "coerce_utf8 (c # s) = c # take (w - 1) s @ coerce_utf8 (drop (w - 1) s)"
        using dr nb by auto
      show ?thesis
      proof (cases "r = 0x2028 \<or> r = 0x2029")
        case True
        have r16: "r mod 16 < 16" by simp
        have g: "getu4 (backslash # CHR ''u'' # CHR ''2'' # CHR ''0'' # CHR ''2''
                   # digit_char (r mod 16) # encode_chars (drop (w - 1) s)) = Some r"
          using getu4_digits [OF hexval_consts(2) hexval_consts(1) hexval_consts(2)
              hexval_digit_char [OF r16]] True
          by auto
        have ns: "\<not> IsSurrogate r" using True by (auto simp: IsSurrogate_def)
        have "r \<noteq> RuneError" using True by (auto simp: RuneError_def)
        then show ?thesis
          using True False dr "2.IH"(3) [OF False dr [symmetric] nb] unquote_u [OF g ns] enc co
          by simp
      next
        case nsep: False
        have hi: "0x80 \<le> byte c" using False by simp
        have dr': "DecodeRune (c # take (w - 1) s @ encode_chars (drop (w - 1) s)) = (r, w)"
          using V by simp
        have "unquote (c # take (w - 1) s @ encode_chars (drop (w - 1) s))
             = map_option ((@) (EncodeRune r)) (unquote (encode_chars (drop (w - 1) s)))"
          using unquote_high [OF hi dr'] len by simp
        then show ?thesis
          using False dr nb nsep "2.IH"(4) [OF False dr [symmetric] nb nsep] enc co
          by auto
      qed
    qed
  qed
qed

section \<open>The parser consumes its input\<close>

lemma map_option_pairD:
  "map_option (\<lambda>(l, r). (f l, r)) x = Some (l', r') \<Longrightarrow> \<exists>l. x = Some (l, r')"
  by (cases x) auto

lemma scan_string_shorter: "scan_string s = Some (l, r) \<Longrightarrow> length r < length s"
proof (induction s arbitrary: l r rule: scan_string.induct)
  case 1
  then show ?case by simp
next
  case (2 c s)
  show ?case
  proof (cases "c = dquote")
    case True
    then show ?thesis using "2.prems" by simp
  next
    case nq: False
    show ?thesis
    proof (cases "c = backslash")
      case True
      then obtain e s' where s: "s = e # s'" using "2.prems" nq by (cases s) auto
      show ?thesis
      proof (cases "simple_escape e")
        case se: True
        then obtain l' where "scan_string s' = Some (l', r)"
          using "2.prems" nq True s by (auto dest: map_option_pairD)
        then have "length r < length s'" using "2.IH"(1) [OF nq True s se] by simp
        then show ?thesis using s by simp
      next
        case nse: False
        then have u: "e = CHR ''u''" using "2.prems" nq True s by (simp split: if_splits)
        then obtain h1 h2 h3 h4 s'' where s': "s' = h1 # h2 # h3 # h4 # s''"
          using "2.prems" nq True s nse by (auto split: list.splits)
        have hx: "hexval h1 \<noteq> None \<and> hexval h2 \<noteq> None \<and> hexval h3 \<noteq> None \<and> hexval h4 \<noteq> None"
          using "2.prems" nq True s nse u s' by (simp split: if_splits)
        then obtain l' where "scan_string s'' = Some (l', r)"
          using "2.prems" nq True s nse u s' by (auto dest: map_option_pairD)
        then have "length r < length s''"
          using "2.IH"(2) [OF nq True s nse u s' _ _ _ hx] by simp
        then show ?thesis using s s' by simp
      qed
    next
      case nb: False
      then have ge: "\<not> byte c < 0x20" using "2.prems" nq by (simp split: if_splits)
      then obtain l' where "scan_string s = Some (l', r)"
        using "2.prems" nq nb by (auto dest: map_option_pairD)
      then have "length r < length s" using "2.IH"(3) [OF nq nb ge] by simp
      then show ?thesis by simp
    qed
  qed
qed

lemma scan_exp_shorter:
  assumes a: "scan_exp acc s = Some (n, r)"
  shows "length r \<le> length s"
proof (cases s)
  case Nil
  then show ?thesis using a by (simp add: scan_exp_def)
next
  case (Cons c t)
  show ?thesis
  proof (cases "c = CHR ''e'' \<or> c = CHR ''E''")
    case False
    then show ?thesis using Cons a by (auto simp: scan_exp_def)
  next
    case True
    define sg where "sg = (case t of [] \<Rightarrow> [] | x # _ \<Rightarrow> if x = CHR ''+'' \<or> x = CHR ''-'' then [x] else [])"
    have "r = dropWhile is_digit (drop (length sg) t)"
      using a True Cons
      by (auto simp: scan_exp_def Let_def sg_def [symmetric] split: list.splits)
    then have "length r \<le> length (drop (length sg) t)"
      using length_dropWhile_le [of is_digit "drop (length sg) t"] by simp
    then show ?thesis using Cons by simp
  qed
qed

lemma scan_frac_shorter:
  assumes a: "scan_frac acc s = Some (n, r)"
  shows "length r \<le> length s"
proof (cases s)
  case Nil
  then show ?thesis using a by (auto simp: scan_frac_def dest: scan_exp_shorter)
next
  case (Cons c t)
  show ?thesis
  proof (cases "c = CHR ''.''")
    case False
    then show ?thesis using Cons a by (auto simp: scan_frac_def dest: scan_exp_shorter)
  next
    case True
    then obtain acc' where "scan_exp acc' (dropWhile is_digit t) = Some (n, r)"
      using a Cons by (auto simp: scan_frac_def split: list.splits)
    then have "length r \<le> length (dropWhile is_digit t)" by (rule scan_exp_shorter)
    also have "\<dots> \<le> length t" by (rule length_dropWhile_le)
    finally show ?thesis using Cons by simp
  qed
qed

lemma scan_number_shorter:
  assumes a: "scan_number s = Some (n, r)"
  shows "length r < length s"
proof -
  define sg where "sg = (case s of [] \<Rightarrow> [] | x # _ \<Rightarrow> if x = CHR ''-'' then [x] else [])"
  obtain d t where s1: "drop (length sg) s = d # t"
    using a by (cases "drop (length sg) s") (auto simp: scan_number_def Let_def sg_def [symmetric])
  have "\<exists>acc. scan_frac acc t = Some (n, r) \<or> scan_frac acc (dropWhile is_digit t) = Some (n, r)"
    using a s1 by (auto simp: scan_number_def Let_def sg_def [symmetric] split: if_splits)
  then have "length r \<le> length t"
    using order_trans [OF scan_frac_shorter length_dropWhile_le] scan_frac_shorter by blast
  moreover have "length (d # t) \<le> length s" unfolding s1 [symmetric] by simp
  ultimately show ?thesis by simp
qed

lemma next_token_shorter: "next_token s = LexTok t r \<Longrightarrow> length r < length s"
proof (induction s rule: next_token.induct)
  case 1
  then show ?case by simp
next
  case (2 c s)
  show ?case
  proof (cases "isSpace c")
    case True
    then show ?thesis using 2 by (simp add: less_Suc_eq)
  next
    case False
    have str: "\<And>l r'. scan_string s = Some (l, r') \<Longrightarrow> length r' < Suc (length s)"
      by (drule scan_string_shorter) simp
    have num: "\<And>n r'. scan_number (c # s) = Some (n, r') \<Longrightarrow> length r' < Suc (length s)"
      by (drule scan_number_shorter) simp
    show ?thesis using "2.prems" False str num
      by (simp split: if_splits option.splits prod.splits) auto
  qed
qed

lemma parse_loop_tok:
  "next_token s = LexTok t r \<Longrightarrow>
   parse_loop cfg s = (case step t cfg of None \<Rightarrow> None | Some cfg' \<Rightarrow> parse_loop cfg' r)"
  by (subst parse_loop.simps) (simp add: next_token_shorter split: option.split)

lemma parse_loop_end: "next_token s = LexEnd \<Longrightarrow> parse_loop cfg s = finish cfg"
  by (subst parse_loop.simps) simp

lemma parse_loop_error: "next_token s = LexError \<Longrightarrow> parse_loop cfg s = None"
  by (subst parse_loop.simps) simp

section \<open>Parsing an encoded habit\<close>

lemma next_token_string:
  "next_token (encode_string x @ s) = LexTok (TString (coerce_utf8 x)) s"
proof -
  have "\<not> isSpace dquote" by (simp add: isSpace_def dquote_def)
  moreover have "dquote \<notin> set ''{}[]:,''" by (simp add: dquote_def)
  ultimately show ?thesis
    by (simp add: encode_string_def scan_string_encode_chars unquote_encode_chars
        del: scan_string.simps)
qed

lemma parse_loop_string:
  "parse_loop cfg (encode_string x @ s) =
     (case step (TString (coerce_utf8 x)) cfg of None \<Rightarrow> None | Some cfg' \<Rightarrow> parse_loop cfg' s)"
  by (rule parse_loop_tok) (rule next_token_string)

lemma parse_loop_punct:
  "parse_loop cfg (CHR ''{'' # s) = (case step LBrace cfg of None \<Rightarrow> None | Some cfg' \<Rightarrow> parse_loop cfg' s)"
  "parse_loop cfg (CHR ''}'' # s) = (case step RBrace cfg of None \<Rightarrow> None | Some cfg' \<Rightarrow> parse_loop cfg' s)"
  "parse_loop cfg (CHR ''['' # s) = (case step LBrack cfg of None \<Rightarrow> None | Some cfg' \<Rightarrow> parse_loop cfg' s)"
  "parse_loop cfg (CHR '']'' # s) = (case step RBrack cfg of None \<Rightarrow> None | Some cfg' \<Rightarrow> parse_loop cfg' s)"
  "parse_loop cfg (CHR '':'' # s) = (case step Colon cfg of None \<Rightarrow> None | Some cfg' \<Rightarrow> parse_loop cfg' s)"
  "parse_loop cfg (CHR '','' # s) = (case step Comma cfg of None \<Rightarrow> None | Some cfg' \<Rightarrow> parse_loop cfg' s)"
  by (rule parse_loop_tok, simp add: isSpace_def)+

lemma parse_loop_null:
  "parse_loop cfg (CHR ''n'' # CHR ''u'' # CHR ''l'' # CHR ''l'' # s)
     = (case step TNull cfg of None \<Rightarrow> None | Some cfg' \<Rightarrow> parse_loop cfg' s)"
  by (rule parse_loop_tok) (simp add: isSpace_def dquote_def is_digit_def byte_def)

lemma parse_loop_nil: "parse_loop cfg [] = finish cfg"
  by (rule parse_loop_end) simp

text \<open>The elements of an array of strings, up to the closing bracket.\<close>

lemma parse_loop_elems:
  "xs \<noteq> [] \<Longrightarrow> x = XValue \<or> x = XValueOrEnd \<Longrightarrow>
   parse_loop (FArray vs # st, x) (encode_elems xs @ CHR '']'' # s)
     = (case push_value (JArray (vs @ map (\<lambda>a. JString (coerce_utf8 a)) xs)) st of
          None \<Rightarrow> None | Some cfg' \<Rightarrow> parse_loop cfg' s)"
proof (induction xs arbitrary: vs x rule: encode_elems.induct)
  case 1
  then show ?case by simp
next
  case (2 a)
  then show ?case by (auto simp: parse_loop_string parse_loop_punct)
next
  case (3 a b xs)
  have "parse_loop (FArray (vs @ [JString (coerce_utf8 a)]) # st, XValue)
          (encode_elems (b # xs) @ CHR '']'' # s)
        = (case push_value (JArray ((vs @ [JString (coerce_utf8 a)])
                @ map (\<lambda>a. JString (coerce_utf8 a)) (b # xs))) st of
          None \<Rightarrow> None | Some cfg' \<Rightarrow> parse_loop cfg' s)"
    by (rule "3.IH") simp_all
  then show ?case using "3.prems"(2) by (auto simp: parse_loop_string parse_loop_punct)
qed

lemma parse_loop_slice:
  "parse_loop (st, XValue) (encode_slice a @ s)
     = (case push_value (json_of_slice a) st of None \<Rightarrow> None | Some cfg' \<Rightarrow> parse_loop cfg' s)"
proof (cases a)
  case None
  then show ?thesis by (simp add: encode_slice_def parse_loop_null)
next
  case (Some xs)
  show ?thesis
  proof (cases "xs = []")
    case True
    then show ?thesis using Some by (simp add: encode_slice_def parse_loop_punct)
  next
    case False
    then show ?thesis using Some
      by (simp add: encode_slice_def parse_loop_punct parse_loop_elems)
  qed
qed

lemma coerce_utf8_ascii: "\<forall>c \<in> set s. byte c < 0x80 \<Longrightarrow> coerce_utf8 s = s"
  by (induction s) (simp_all add: DecodeRune_1 RuneError_def)

lemma encode_chars_safe: "\<forall>c \<in> set s. htmlSafe (byte c) \<Longrightarrow> encode_chars s = s"
  by (induction s) (simp_all add: htmlSafe_def)

lemma encode_string_keys:
  \<open>encode_string ''name'' = ''"name"''\<close> \<open>encode_string ''type'' = ''"type"''\<close>
  \<open>encode_string ''attendees'' = ''"attendees"''\<close> \<open>encode_string ''owner'' = ''"owner"''\<close>
  by (simp_all add: encode_string_def encode_chars_safe byte_def htmlSafe_def dquote_def)

lemma coerce_keys:
  "coerce_utf8 ''name'' = ''name''" "coerce_utf8 ''type'' = ''type''"
  "coerce_utf8 ''attendees'' = ''attendees''" "coerce_utf8 ''owner'' = ''owner''"
  by (rule coerce_utf8_ascii, simp add: byte_def)+

declare coerce_utf8.simps [simp del]
declare encode_chars.simps [simp del]

lemma Marshal_Habit_tokens:
  "Marshal_Habit h =
     CHR ''{'' # encode_string ''name'' @ CHR '':'' # encode_string (Name h)
     @ CHR '','' # encode_string ''type'' @ CHR '':'' # encode_string (Type h)
     @ CHR '','' # encode_string ''attendees'' @ CHR '':'' # encode_slice (Attendees h)
     @ CHR '','' # encode_string ''owner'' @ CHR '':'' # encode_string (Owner h) @ ''}''"
  by (simp add: Marshal_Habit_def encode_string_keys)

section \<open>Coercion to valid UTF-8\<close>

lemma byte_char_of: "n < 256 \<Longrightarrow> byte (char_of n) = n"
  by (simp add: byte_def)

lemma EncodeRune_RuneError: "EncodeRune RuneError = [CHR 0xEF, CHR 0xBF, CHR 0xBD]"
proof -
  have "EncodeRune RuneError = [char_of (239::nat), char_of (191::nat), char_of (189::nat)]"
    by (simp add: EncodeRune_def RuneError_def MaxRune_def enc3_def)
  also have "\<dots> = [char_of (byte (CHR 0xEF)), char_of (byte (CHR 0xBF)), char_of (byte (CHR 0xBD))]"
    by (simp add: byte_def)
  finally show ?thesis by (simp only: char_of_byte)
qed

lemma DecodeRune_replacement: "DecodeRune (EncodeRune RuneError @ t) = (RuneError, 3)"
proof -
  have a: "0xE0 \<le> byte (CHR 0xEF)" "byte (CHR 0xEF) < 0xF0" by (simp_all add: byte_def)
  show ?thesis
    unfolding EncodeRune_RuneError
    by (simp add: DecodeRune_3 [OF a] accept_lo_def accept_hi_def byte_def RuneError_def)
qed

lemma coerce_utf8_step_bad:
  "DecodeRune (c # s) = (RuneError, 1) \<Longrightarrow> coerce_utf8 (c # s) = EncodeRune RuneError @ coerce_utf8 s"
  by (simp add: coerce_utf8.simps)

lemma coerce_utf8_step_ok:
  "DecodeRune (c # s) = (r, w) \<Longrightarrow> \<not> (r = RuneError \<and> w = 1) \<Longrightarrow>
   coerce_utf8 (c # s) = c # take (w - 1) s @ coerce_utf8 (drop (w - 1) s)"
  by (auto simp: coerce_utf8.simps)

lemma coerce_utf8_idem: "coerce_utf8 (coerce_utf8 s) = coerce_utf8 s"
proof (induction s rule: coerce_utf8.induct)
  case 1
  show ?case by (simp add: coerce_utf8.simps)
next
  case (2 c s)
  obtain r w where dr: "DecodeRune (c # s) = (r, w)" by (cases "DecodeRune (c # s)")
  show ?case
  proof (cases "r = RuneError \<and> w = 1")
    case True
    then have co: "coerce_utf8 (c # s) = EncodeRune RuneError @ coerce_utf8 s"
      using dr by (simp add: coerce_utf8_step_bad)
    have IH: "coerce_utf8 (coerce_utf8 s) = coerce_utf8 s"
      using "2.IH"(1) [OF dr [symmetric] True] .
    have d: "DecodeRune (CHR 0xEF # CHR 0xBF # CHR 0xBD # coerce_utf8 s) = (RuneError, 3)"
      using DecodeRune_replacement [of "coerce_utf8 s"] by (simp add: EncodeRune_RuneError)
    have "coerce_utf8 (CHR 0xEF # CHR 0xBF # CHR 0xBD # coerce_utf8 s)
        = CHR 0xEF # CHR 0xBF # CHR 0xBD # coerce_utf8 (coerce_utf8 s)"
      using coerce_utf8_step_ok [OF d] by simp
    then show ?thesis by (simp add: co EncodeRune_RuneError IH)
  next
    case False
    note V = DecodeRune_valid [OF dr False]
    have co: "coerce_utf8 (c # s) = c # take (w - 1) s @ coerce_utf8 (drop (w - 1) s)"
      using dr False by (rule coerce_utf8_step_ok)
    have IH: "coerce_utf8 (coerce_utf8 (drop (w - 1) s)) = coerce_utf8 (drop (w - 1) s)"
      using "2.IH"(2) [OF dr [symmetric] False] .
    have d: "DecodeRune (c # take (w - 1) s @ coerce_utf8 (drop (w - 1) s)) = (r, w)"
      using V by simp
    have len: "length (take (w - 1) s) = w - 1" using V by simp
    have "coerce_utf8 (c # take (w - 1) s @ coerce_utf8 (drop (w - 1) s))
        = c # take (w - 1) (take (w - 1) s @ coerce_utf8 (drop (w - 1) s))
            @ coerce_utf8 (drop (w - 1) (take (w - 1) s @ coerce_utf8 (drop (w - 1) s)))"
      using d False by (rule coerce_utf8_step_ok)
    also have "\<dots> = c # take (w - 1) s @ coerce_utf8 (coerce_utf8 (drop (w - 1) s))"
      using len by simp
    finally have "coerce_utf8 (c # take (w - 1) s @ coerce_utf8 (drop (w - 1) s))
        = c # take (w - 1) s @ coerce_utf8 (drop (w - 1) s)"
      by (simp only: IH)
    then show ?thesis by (simp only: co)
  qed
qed

lemma coerce_utf8_ValidString: "ValidString s \<Longrightarrow> coerce_utf8 s = s"
proof (induction s rule: ValidString.induct)
  case 1
  show ?case by (simp add: coerce_utf8.simps)
next
  case (2 c s)
  obtain r w where dr: "DecodeRune (c # s) = (r, w)" by (cases "DecodeRune (c # s)")
  have nb: "\<not> (r = RuneError \<and> w = 1)" using "2.prems" dr by auto
  have v: "ValidString (drop (w - 1) s)" using "2.prems" dr nb by auto
  have "coerce_utf8 (drop (w - 1) s) = drop (w - 1) s"
    using "2.IH" [OF dr [symmetric] nb v] .
  then show ?case using coerce_utf8_step_ok [OF dr nb] by simp
qed

lemma coerce_utf8_Nil_iff: "coerce_utf8 s = [] \<longleftrightarrow> s = []"
proof (cases s)
  case Nil
  then show ?thesis by (simp add: coerce_utf8.simps)
next
  case (Cons c t)
  then show ?thesis
    by (auto simp: coerce_utf8.simps EncodeRune_RuneError split: prod.splits)
qed

section \<open>Decoding an encoded habit\<close>

lemma json_of_slice_coerce:
  "json_of_slice a = (case map_option (map coerce_utf8) a of None \<Rightarrow> JNull | Some xs \<Rightarrow> JArray (map JString xs))"
  by (cases a) (simp_all add: comp_def)

lemma parse_loop_Marshal_Habit:
  "parse_loop (st, XValue) (Marshal_Habit h @ rest) =
     (case push_value (json_of_Habit (coerce_Habit h)) st of
        None \<Rightarrow> None | Some cfg' \<Rightarrow> parse_loop cfg' rest)"
  unfolding Marshal_Habit_tokens
  by (simp add: parse_loop_punct parse_loop_string parse_loop_slice coerce_keys
      json_of_Habit_def coerce_Habit_def json_of_slice_coerce)

lemma parse_json_Marshal_Habit:
  "parse_json (Marshal_Habit h) = Some (json_of_Habit (coerce_Habit h))"
  using parse_loop_Marshal_Habit [of "[]" h "[]"]
  by (simp add: parse_json_def parse_loop_nil)

lemma match_field_keys:
  "match_field ''name'' = Some FieldName" "match_field ''type'' = Some FieldType"
  "match_field ''attendees'' = Some FieldAttendees" "match_field ''owner'' = Some FieldOwner"
  by (simp_all add: match_field_def habit_fields_def)

lemma decode_strings:
  "map (\<lambda>v. fst (decode_string v [])) (map JString xs) = xs"
  "list_all (\<lambda>v. snd (decode_string v [])) (map JString xs)"
  by (induction xs) simp_all

lemma decode_strings_comp:
  "map (\<lambda>v. fst (decode_string v [])) (map (JString \<circ> f) ys) = map f ys"
  "list_all (\<lambda>v. snd (decode_string v [])) (map (JString \<circ> f) ys)"
  by (induction ys) simp_all

lemma Unmarshal_Marshal_Habit:
  "Unmarshal_Habit (Marshal_Habit h) h0 = (coerce_Habit h, None)"
proof (cases "Attendees h")
  case None
  then show ?thesis
    by (simp add: Unmarshal_Habit_def parse_json_Marshal_Habit json_of_Habit_def coerce_Habit_def
        decode_member_def match_field_keys)
next
  case (Some xs)
  then show ?thesis
    by (simp add: Unmarshal_Habit_def parse_json_Marshal_Habit json_of_Habit_def coerce_Habit_def
        decode_member_def match_field_keys decode_strings decode_strings_comp)
qed

lemma coerce_Habit_idem: "coerce_Habit (coerce_Habit h) = coerce_Habit h"
  by (cases "Attendees h") (simp_all add: coerce_Habit_def coerce_utf8_idem)

lemma Unmarshal_empty: "Unmarshal_Habit [] h0 = (h0, Some SyntaxError)"
  by (simp add: Unmarshal_Habit_def parse_json_def parse_loop_nil)

section \<open>The store and the seeding loops\<close>

lemma GetState_PutState:
  "GetState (PutState st k v) k' = (if k' = k then v else GetState st k')"
  by (simp add: GetState_def PutState_def update_conv')

lemma Itoa_small:
  "Itoa 0 = ''0''" "Itoa 1 = ''1''" "Itoa 2 = ''2''" "Itoa 3 = ''3''" "Itoa 4 = ''4''"
  by (simp_all add: Itoa_def decimal.simps digit_char_def)

lemma upt5: "[0..<5] = [0, 1, 2, 3, 4::nat]"
  by code_simp

lemma upt4: "[0..<4] = [0, 1, 2, 3::nat]"
  by code_simp

lemma put_habits_foldl:
  "put_habits hs i st =
     foldl (\<lambda>st j. PutState st (''HABIT'' @ Itoa (int j)) (Marshal_Habit (hs ! j))) st [i..<length hs]"
proof (induction hs i st rule: put_habits.induct)
  case (1 habits i st)
  show ?case
  proof (cases "i < length habits")
    case True
    then show ?thesis
      using "1.IH" by (subst put_habits.simps) (simp add: upt_conv_Cons)
  next
    case False
    then show ?thesis by (subst put_habits.simps) simp
  qed
qed

lemma put_people_foldl:
  "put_people ps j st =
     foldl (\<lambda>st j. PutState st (''PERSON'' @ Itoa (int j)) (Marshal_Person (ps ! j))) st [j..<length ps]"
proof (induction ps j st rule: put_people.induct)
  case (1 people j st)
  show ?case
  proof (cases "j < length people")
    case True
    then show ?thesis
      using "1.IH" by (subst put_people.simps) (simp add: upt_conv_Cons)
  next
    case False
    then show ?thesis by (subst put_people.simps) simp
  qed
qed

lemma put_habits_seed:
  "put_habits seed_habits 0 st =
     PutState (PutState (PutState (PutState (PutState st
       ''HABIT0'' (Marshal_Habit (seed_habits ! 0)))
       ''HABIT1'' (Marshal_Habit (seed_habits ! 1)))
       ''HABIT2'' (Marshal_Habit (seed_habits ! 2)))
       ''HABIT3'' (Marshal_Habit (seed_habits ! 3)))
       ''HABIT4'' (Marshal_Habit (seed_habits ! 4))"
proof -
  have len: "length seed_habits = 5" by (simp add: seed_habits_def)
  show ?thesis unfolding put_habits_foldl len upt5 by (simp add: Itoa_small)
qed

lemma put_people_seed:
  "put_people seed_people 0 st =
     PutState (PutState (PutState (PutState st
       ''PERSON0'' (Marshal_Person (seed_people ! 0)))
       ''PERSON1'' (Marshal_Person (seed_people ! 1)))
       ''PERSON2'' (Marshal_Person (seed_people ! 2)))
       ''PERSON3'' (Marshal_Person (seed_people ! 3))"
proof -
  have len: "length seed_people = 4" by (simp add: seed_people_def)
  show ?thesis unfolding put_people_foldl len upt4 by (simp add: Itoa_small)
qed

lemma initLedger_values:
  "map (GetState (snd (initLedger st))) seed_keys = seed_values"
proof -
  have nth: "map Marshal_Habit seed_habits = map (\<lambda>i. Marshal_Habit (seed_habits ! i)) [0, 1, 2, 3, 4]"
    "map Marshal_Person seed_people = map (\<lambda>i. Marshal_Person (seed_people ! i)) [0, 1, 2, 3]"
    by (simp_all add: seed_habits_def seed_people_def)
  show ?thesis
    unfolding initLedger_def snd_conv put_habits_seed put_people_seed seed_values_def nth
    by (simp add: seed_keys_def GetState_PutState)
qed

section \<open>The claims\<close>

text \<open>
  C4. \<^verbatim>\<open>initLedger\<close> is idempotent: whatever the store held, after one call and after two
  calls in succession the keys \<open>HABIT0\<close> .. \<open>HABIT4\<close> and \<open>PERSON0\<close> .. \<open>PERSON3\<close> hold the
  same values, the JSON encodings of the seed habits and the seed people.
\<close>

theorem initLedger_idempotent:
  "map (GetState (snd (initLedger st))) seed_keys = seed_values
   \<and> map (GetState (snd (initLedger (snd (initLedger st))))) seed_keys = seed_values"
  by (simp add: initLedger_values)

text \<open>
  C6. With a number of arguments other than the expected one (5 for \<^verbatim>\<open>createHabit\<close>, 2 for
  \<^verbatim>\<open>changeHabitOwner\<close> and for \<^verbatim>\<open>changeHabitAttendees\<close>) the operation returns an error
  whose message contains \<open>Incorrect number of arguments\<close>, and the store it leaves is the
  store it was given.
\<close>

theorem wrong_argument_count:
  "(length args \<noteq> 5 \<longrightarrow>
      (\<exists>msg. createHabit st args = (Error msg, st)
             \<and> Contains msg ''Incorrect number of arguments''))
   \<and> (length args \<noteq> 2 \<longrightarrow>
      (\<exists>msg. changeHabitOwner st args = (Error msg, st)
             \<and> Contains msg ''Incorrect number of arguments''))
   \<and> (length args \<noteq> 2 \<longrightarrow>
      (\<exists>msg. changeHabitAttendees st args = (Error msg, st)
             \<and> Contains msg ''Incorrect number of arguments''))"
  by (simp add: createHabit_def changeHabitOwner_def changeHabitAttendees_def)

theorem wrong_argument_count_witness:
  "length [''H1''] \<noteq> 5 \<and> length [''H1''] \<noteq> 2
   \<and> (\<exists>msg. createHabit [(''H1'', ''x'')] [''H1''] = (Error msg, [(''H1'', ''x'')])
             \<and> Contains msg ''Incorrect number of arguments'')
   \<and> (\<exists>msg. changeHabitOwner [(''H1'', ''x'')] [''H1''] = (Error msg, [(''H1'', ''x'')])
             \<and> Contains msg ''Incorrect number of arguments'')
   \<and> (\<exists>msg. changeHabitAttendees [(''H1'', ''x'')] [''H1''] = (Error msg, [(''H1'', ''x'')])
             \<and> Contains msg ''Incorrect number of arguments'')"
  using wrong_argument_count [of "[''H1'']" "[(''H1'', ''x'')]"] by simp

text \<open>
  C9. For every key, present in the store or not, \<^verbatim>\<open>queryHabit\<close> with that one argument
  succeeds; its payload is the bytes stored at the key, empty when the key is absent; the
  store is left as it was.
\<close>

theorem queryHabit_raw:
  "queryHabit st [k] = (Success (case map_of st k of None \<Rightarrow> [] | Some v \<Rightarrow> v), st)"
  by (simp add: queryHabit_def GetState_def)

end
